theory Spec2Isabelle
  imports Complex_Main "HOL-Library.Char_ord" "HOL-Library.List_Lexorder" "HOL-Library.Log_Nat"
begin

section \<open>Data model (types.ts)\<close>

text \<open>
  A loan row. JavaScript numbers are modelled as integers for \<open>id\<close> and \<open>amount\<close>
  (the generated data holds integers only), strings as byte lists. The status is the
  closed union \<^verbatim>\<open>'Pending' | 'Approved' | 'Rejected'\<close>; \<open>statusText\<close> gives the string
  the program compares and lower-cases.
\<close>

datatype LoanStatus = Pending | Approved | Rejected

fun statusText :: "LoanStatus \<Rightarrow> string" where
  "statusText Pending = ''Pending''"
| "statusText Approved = ''Approved''"
| "statusText Rejected = ''Rejected''"

record Loan =
  id' :: int
  borrowerName :: string
  amount :: int
  status :: LoanStatus
  closeDate :: string

datatype SortDirection = asc | desc | none

text \<open>\<^verbatim>\<open>SortableColumn = keyof Loan\<close>.\<close>

datatype SortableColumn = col_id | col_borrowerName | col_amount | col_status | col_closeDate

record SortState =
  column :: "SortableColumn option"
  direction :: SortDirection

text \<open>
  Filter criteria. The optional fields are \<open>None\<close> when \<^verbatim>\<open>undefined\<close>. The status of the
  criteria is a free string (\<^verbatim>\<open>'All'\<close>, the empty string or a status name).
\<close>

record FilterState =
  search :: string
  statusFilter :: string
  minAmount :: "int option"
  maxAmount :: "int option"
  startDate :: "string option"
  endDate :: "string option"

text \<open>
  A JavaScript number that may be the result of a division by zero:
  \<^verbatim>\<open>Math.ceil(n / 0)\<close> is \<^verbatim>\<open>Infinity\<close>, or \<^verbatim>\<open>NaN\<close> when \<open>n\<close> is zero.
\<close>

datatype jsnum = Finite int | Infinity | NaN

record PaginationState =
  pageSize :: int
  currentPage :: int
  totalPages :: jsnum
  loadedRowsCount :: int

record VisibleRange =
  startIndex :: int
  endIndex :: int

section \<open>Built-ins of the language\<close>

text \<open>\<^verbatim>\<open>String.prototype.toLowerCase\<close> on ASCII text.\<close>

definition lowerChar :: "char \<Rightarrow> char" where
  "lowerChar c =
     (if CHR ''A'' \<le> c \<and> c \<le> CHR ''Z'' then char_of (of_char c + (32 :: nat)) else c)"

definition toLowerCase :: "string \<Rightarrow> string" where
  "toLowerCase s = map lowerChar s"

text \<open>\<^verbatim>\<open>String.prototype.includes\<close>: the argument occurs as a contiguous substring.\<close>

fun startsWith :: "string \<Rightarrow> string \<Rightarrow> bool" where
  "startsWith s [] = True"
| "startsWith [] (c # t) = False"
| "startsWith (d # s) (c # t) = (d = c \<and> startsWith s t)"

fun includes' :: "string \<Rightarrow> string \<Rightarrow> bool" where
  "includes' [] t = (t = [])"
| "includes' (d # s) t = (startsWith (d # s) t \<or> includes' s t)"

text \<open>
  \<^verbatim>\<open>Array.prototype.slice(start, end)\<close>: a negative index counts from the end of the
  array, every index is clamped to the array, and an empty interval gives the empty array.
\<close>

definition slice :: "'a list \<Rightarrow> int \<Rightarrow> int \<Rightarrow> 'a list" where
  "slice xs start end' =
     (let len = int (length xs);
          k = (if start < 0 then max (len + start) 0 else min start len);
          final = (if end' < 0 then max (len + end') 0 else min end' len)
      in take (nat (final - k)) (drop (nat k) xs))"

text \<open>
  \<^verbatim>\<open>Array.prototype.sort(compare)\<close>. The language standard makes the sort stable, and for
  a consistent comparator the result is the one stable arrangement in comparator order;
  it is computed here by insertion from the right, an element going before the first
  element it does not compare greater than.
\<close>

fun insertBy :: "('a \<Rightarrow> 'a \<Rightarrow> int) \<Rightarrow> 'a \<Rightarrow> 'a list \<Rightarrow> 'a list" where
  "insertBy cmp x [] = [x]"
| "insertBy cmp x (y # ys) = (if cmp x y \<le> 0 then x # y # ys else y # insertBy cmp x ys)"

definition sortBy :: "('a \<Rightarrow> 'a \<Rightarrow> int) \<Rightarrow> 'a list \<Rightarrow> 'a list" where
  "sortBy cmp xs = foldr (insertBy cmp) xs []"

text \<open>\<^verbatim>\<open>Math.ceil(n / d)\<close> on integers \<open>n\<close> and \<open>d\<close>.\<close>

definition ceilDiv :: "int \<Rightarrow> int \<Rightarrow> jsnum" where
  "ceilDiv n d =
     (if d = 0 then (if n = 0 then NaN else Infinity)
      else Finite \<lceil>real_of_int n / real_of_int d\<rceil>)"

text \<open>
  Numbers are IEEE 754 double-precision values. A finite one is a rational number here,
  and an arithmetic operation computes the exact result and rounds it to the nearest
  double, a tie going to the neighbour with the even significand. \<open>expo x\<close> is the binary
  exponent \<open>e\<close> of a positive \<open>x\<close>, with \<open>2 powi e \<le> x < 2 powi (e + 1)\<close>; the doubles
  around \<open>x\<close> are the multiples of \<open>2 powi (e - 52)\<close>, and the multiples of
  \<open>2 powi (- 1074)\<close> in the subnormal range. \<open>roundEven k x\<close> is the multiple of \<open>2 powi k\<close>
  nearest to \<open>x\<close>. A rounded result of magnitude \<open>2 ^ 1024\<close> or more is an overflow. A
  result that is not a finite number (an overflow, a division by zero) is \<open>None\<close>.
\<close>

definition expo :: "rat \<Rightarrow> int" where
  "expo x = (if 1 \<le> x then bitlen \<lfloor>x\<rfloor> - 1 else - bitlen (\<lceil>1 / x\<rceil> - 1))"

definition roundEven :: "int \<Rightarrow> rat \<Rightarrow> rat" where
  "roundEven k x =
     (let y = x / 2 powi k;
          n = \<lfloor>y\<rfloor>;
          r = y - of_int n;
          m = (if r < 1 / 2 then n else if 1 / 2 < r then n + 1
               else if even n then n else n + 1)
      in of_int m * 2 powi k)"

definition round64 :: "rat \<Rightarrow> rat option" where
  "round64 x =
     (if x = 0 then Some 0
      else (let r = roundEven (max (expo \<bar>x\<bar> - 52) (- 1074)) x
            in if 2 ^ 1024 \<le> \<bar>r\<bar> then None else Some r))"

text \<open>The operators \<^verbatim>\<open>+\<close>, \<^verbatim>\<open>-\<close> and \<^verbatim>\<open>/\<close> on finite doubles.\<close>

definition plus64 :: "rat \<Rightarrow> rat \<Rightarrow> rat option" where
  "plus64 x y = round64 (x + y)"

definition minus64 :: "rat \<Rightarrow> rat \<Rightarrow> rat option" where
  "minus64 x y = round64 (x - y)"

definition divide64 :: "rat \<Rightarrow> rat \<Rightarrow> rat option" where
  "divide64 x y = (if y = 0 then None else round64 (x / y))"

section \<open>utils.ts\<close>

subsection \<open>sortLoans\<close>

text \<open>The value \<^verbatim>\<open>a[column]\<close>: a number or a string.\<close>

datatype cell = NumCell int | StrCell string

fun cellOf :: "SortableColumn \<Rightarrow> Loan \<Rightarrow> cell" where
  "cellOf col_id a = NumCell (id' a)"
| "cellOf col_borrowerName a = StrCell (borrowerName a)"
| "cellOf col_amount a = NumCell (amount a)"
| "cellOf col_status a = StrCell (statusText (status a))"
| "cellOf col_closeDate a = StrCell (closeDate a)"

fun lowerCell :: "cell \<Rightarrow> cell" where
  "lowerCell (StrCell s) = StrCell (toLowerCase s)"
| "lowerCell (NumCell n) = NumCell n"

text \<open>
  \<^verbatim>\<open>aVal < bVal\<close>. Both values come from the same column, so they have the same type;
  strings compare by code unit, lexicographically.
\<close>

fun cellLess :: "cell \<Rightarrow> cell \<Rightarrow> bool" where
  "cellLess (NumCell m) (NumCell n) = (m < n)"
| "cellLess (StrCell s) (StrCell t) = (s < t)"
| "cellLess _ _ = False"

text \<open>The comparator that \<open>sortLoans\<close> passes to \<^verbatim>\<open>sort\<close>.\<close>

definition compareLoans :: "SortableColumn \<Rightarrow> SortDirection \<Rightarrow> Loan \<Rightarrow> Loan \<Rightarrow> int" where
  "compareLoans col dir a b =
     (let aVal = lowerCell (cellOf col a);
          bVal = lowerCell (cellOf col b);
          result = (if cellLess aVal bVal then - 1
                    else if cellLess bVal aVal then 1
                    else id' a - id' b)
      in if dir = desc then - result else result)"

definition sortLoans :: "Loan list \<Rightarrow> SortableColumn option \<Rightarrow> SortDirection \<Rightarrow> Loan list" where
  "sortLoans loans col dir =
     (case col of
        None \<Rightarrow> loans
      | Some c \<Rightarrow> if dir = none then loans else sortBy (compareLoans c dir) loans)"

subsection \<open>filterLoans\<close>

text \<open>
  The predicate of \<open>filterLoans\<close>, test by test in the order of the source. An empty
  search term, an empty or \<^verbatim>\<open>'All'\<close> status and an empty date string are falsy and
  impose nothing; an amount bound imposes nothing only when it is \<^verbatim>\<open>undefined\<close>.
\<close>

definition keepLoan :: "FilterState \<Rightarrow> Loan \<Rightarrow> bool" where
  "keepLoan filters loan =
     (if search filters \<noteq> [] \<and>
         \<not> includes' (toLowerCase (borrowerName loan)) (toLowerCase (search filters))
      then False
      else if statusFilter filters \<noteq> [] \<and> statusFilter filters \<noteq> ''All'' \<and>
         statusText (status loan) \<noteq> statusFilter filters
      then False
      else if (case minAmount filters of None \<Rightarrow> False | Some m \<Rightarrow> amount loan < m)
      then False
      else if (case maxAmount filters of None \<Rightarrow> False | Some m \<Rightarrow> m < amount loan)
      then False
      else if (case startDate filters of None \<Rightarrow> False
               | Some d \<Rightarrow> d \<noteq> [] \<and> closeDate loan < d)
      then False
      else if (case endDate filters of None \<Rightarrow> False
               | Some d \<Rightarrow> d \<noteq> [] \<and> d < closeDate loan)
      then False
      else True)"

definition filterLoans :: "Loan list \<Rightarrow> FilterState \<Rightarrow> Loan list" where
  "filterLoans loans filters = filter (keepLoan filters) loans"

subsection \<open>getCacheKey\<close>

text \<open>
  The key is \<^verbatim>\<open>JSON.stringify({ filters, sortColumn, sortDirection })\<close>. The filter object
  always lists its properties in the same order and an \<^verbatim>\<open>undefined\<close> property is left
  out, so on the values of this model the text determines the three components and is
  determined by them; the key is modelled by the triple itself.
\<close>

type_synonym cacheKey = "FilterState \<times> SortableColumn option \<times> SortDirection"

definition getCacheKey :: "FilterState \<Rightarrow> SortableColumn option \<Rightarrow> SortDirection \<Rightarrow> cacheKey" where
  "getCacheKey filters sortColumn sortDirection = (filters, sortColumn, sortDirection)"

subsection \<open>calculateVisibleRange\<close>

text \<open>
  The function in double precision, operation by operation in the order of the source:
  the quotient \<^verbatim>\<open>scrollTop / itemHeight\<close>, its floor, the difference with the overscan,
  \<^verbatim>\<open>totalItems - 1\<close>, the sum \<^verbatim>\<open>scrollTop + containerHeight\<close>, its quotient by the item
  height, the ceiling, the sum with the overscan. Every argument is a finite double; the
  overscan argument is optional and defaults to 5. \<^verbatim>\<open>Math.floor\<close>, \<^verbatim>\<open>Math.ceil\<close>,
  \<^verbatim>\<open>Math.max\<close> and \<^verbatim>\<open>Math.min\<close> are exact on finite doubles. The result is the pair of
  the start index and the end index, and \<open>None\<close> when an intermediate value is not a
  finite number.
\<close>

definition calculateVisibleRange64 ::
  "rat \<Rightarrow> rat \<Rightarrow> rat \<Rightarrow> rat \<Rightarrow> rat option \<Rightarrow> (rat \<times> rat) option" where
  "calculateVisibleRange64 scrollTop containerHeight itemHeight totalItems overscanArg =
     (let overscan = (case overscanArg of None \<Rightarrow> 5 | Some v \<Rightarrow> v)
      in case divide64 scrollTop itemHeight of None \<Rightarrow> None | Some topRow \<Rightarrow>
         case minus64 (of_int \<lfloor>topRow\<rfloor>) overscan of None \<Rightarrow> None | Some first \<Rightarrow>
         case minus64 totalItems 1 of None \<Rightarrow> None | Some lastRow \<Rightarrow>
         case plus64 scrollTop containerHeight of None \<Rightarrow> None | Some bottomEdge \<Rightarrow>
         case divide64 bottomEdge itemHeight of None \<Rightarrow> None | Some bottomRow \<Rightarrow>
         case plus64 (of_int \<lceil>bottomRow\<rceil>) overscan of None \<Rightarrow> None | Some final \<Rightarrow>
         Some (max 0 first, min lastRow final))"

text \<open>
  The same two expressions in exact arithmetic, on an integer row count and overscan.
  The bounds of the range come from the two clamps alone and are stated on this reading.
  With a row height of zero the quotients are not finite numbers: the result is \<open>None\<close>
  there.
\<close>

definition calculateVisibleRange ::
  "real \<Rightarrow> real \<Rightarrow> real \<Rightarrow> int \<Rightarrow> int option \<Rightarrow> VisibleRange option" where
  "calculateVisibleRange scrollTop containerHeight itemHeight totalItems overscanArg =
     (let overscan = (case overscanArg of None \<Rightarrow> 5 | Some v \<Rightarrow> v)
      in if itemHeight = 0 then None
         else Some \<lparr>startIndex = max 0 (\<lfloor>scrollTop / itemHeight\<rfloor> - overscan),
                    endIndex = min (totalItems - 1)
                      (\<lceil>(scrollTop + containerHeight) / itemHeight\<rceil> + overscan)\<rparr>)"

section \<open>The store (useLoanStore.ts)\<close>

text \<open>
  The module-level state. \<open>resultCache\<close> is the \<^verbatim>\<open>Map\<close> from cache keys to results, kept
  as the list of its entries in insertion order, so that its size is the length of the
  list.

  \<open>computedValue\<close> is the state of the computed value \<open>filteredAndSortedLoans\<close> of the
  one store instance that the application creates. The framework keeps the value of the
  last run of the getter and runs the getter again only at the first read after one of
  the reactive values that this run has read was assigned. Every run reads \<open>filterState\<close>
  and \<open>sortState\<close>; only a run that misses the cache reads \<open>allLoans\<close>; the cache itself is
  a plain \<^verbatim>\<open>Map\<close>, which the framework does not track. \<open>None\<close> says that the next read
  runs the getter; \<open>Some (v, tracksData)\<close> is the value \<open>v\<close> of the last run, and
  \<open>tracksData\<close> says whether that run has read \<open>allLoans\<close>.
\<close>

record Store =
  allLoans :: "Loan list"
  loadedLoans :: "Loan list"
  isLoading :: bool
  error :: "string option"
  sortState :: SortState
  filterState :: FilterState
  paginationState :: PaginationState
  resultCache :: "(cacheKey \<times> Loan list) list"
  computedValue :: "(Loan list \<times> bool) option"

definition initialFilterState :: FilterState where
  "initialFilterState =
     \<lparr>search = [], statusFilter = ''All'', minAmount = None, maxAmount = None,
      startDate = None, endDate = None\<rparr>"

definition initialStore :: Store where
  "initialStore =
     \<lparr>allLoans = [], loadedLoans = [], isLoading = False, error = None,
      sortState = \<lparr>column = None, direction = none\<rparr>,
      filterState = initialFilterState,
      paginationState = \<lparr>pageSize = 25, currentPage = 0, totalPages = Finite 0,
        loadedRowsCount = 0\<rparr>,
      resultCache = [], computedValue = None\<rparr>"

text \<open>\<^verbatim>\<open>Map.prototype.set\<close>: the value of an existing key is replaced in place, a new key
  is added at the end.\<close>

fun cacheSet :: "('k \<times> 'v) list \<Rightarrow> 'k \<Rightarrow> 'v \<Rightarrow> ('k \<times> 'v) list" where
  "cacheSet [] k v = [(k, v)]"
| "cacheSet (p # ps) k v = (if fst p = k then (k, v) # ps else p # cacheSet ps k v)"

text \<open>
  Assignments to the reactive values that the getter reads. Each assigns a new object,
  so the computed value is marked for a new run when its last run has read the value.
\<close>

definition assignAllLoans :: "Loan list \<Rightarrow> Store \<Rightarrow> Store" where
  "assignAllLoans data s =
     s\<lparr>allLoans := data,
       computedValue := (case computedValue s of
                           Some (v, True) \<Rightarrow> None
                         | kept \<Rightarrow> kept)\<rparr>"

definition assignSortState :: "SortState \<Rightarrow> Store \<Rightarrow> Store" where
  "assignSortState srt s = s\<lparr>sortState := srt, computedValue := None\<rparr>"

definition assignFilterState :: "FilterState \<Rightarrow> Store \<Rightarrow> Store" where
  "assignFilterState flt s = s\<lparr>filterState := flt, computedValue := None\<rparr>"

text \<open>
  The getter of the computed value \<open>filteredAndSortedLoans\<close>: it returns the view and
  the store as the run leaves it.
\<close>

definition filteredAndSortedLoans_getter :: "Store \<Rightarrow> Loan list \<times> Store" where
  "filteredAndSortedLoans_getter s =
     (let cacheKey = getCacheKey (filterState s) (column (sortState s))
                       (direction (sortState s))
      in case map_of (resultCache s) cacheKey of
           Some hit \<Rightarrow> (hit, s\<lparr>computedValue := Some (hit, False)\<rparr>)
         | None \<Rightarrow>
             (let filtered = filterLoans (allLoans s) (filterState s);
                  sorted = sortLoans filtered (column (sortState s)) (direction (sortState s));
                  cleared = (if 100 < length (resultCache s) then [] else resultCache s)
              in (sorted, s\<lparr>resultCache := cacheSet cleared cacheKey sorted,
                             computedValue := Some (sorted, True)\<rparr>)))"

text \<open>A read of \<^verbatim>\<open>filteredAndSortedLoans.value\<close>.\<close>

definition filteredAndSortedLoans :: "Store \<Rightarrow> Loan list \<times> Store" where
  "filteredAndSortedLoans s =
     (case computedValue s of
        Some (v, tracksData) \<Rightarrow> (v, s)
      | None \<Rightarrow> filteredAndSortedLoans_getter s)"

definition totalFilteredCount :: "Store \<Rightarrow> int" where
  "totalFilteredCount s = int (length (fst (filteredAndSortedLoans s)))"

definition hasMoreData :: "Store \<Rightarrow> bool" where
  "hasMoreData s = (length (loadedLoans s) < length (fst (filteredAndSortedLoans s)))"

definition loadNextPage :: "Store \<Rightarrow> Store" where
  "loadNextPage s =
     (let size = pageSize (paginationState s);
          page = currentPage (paginationState s);
          startIdx = page * size;
          endIdx = startIdx + size;
          (view, s1) = filteredAndSortedLoans s;
          nextPageData = slice view startIdx endIdx
      in if 0 < length nextPageData then
           (let s2 = s1\<lparr>loadedLoans :=
                       (if page = 0 then nextPageData else loadedLoans s1 @ nextPageData)\<rparr>;
                s3 = s2\<lparr>paginationState := (paginationState s2)
                       \<lparr>currentPage := currentPage (paginationState s2) + 1\<rparr>\<rparr>;
                s4 = s3\<lparr>paginationState := (paginationState s3)
                       \<lparr>loadedRowsCount := int (length (loadedLoans s3))\<rparr>\<rparr>;
                (view', s5) = filteredAndSortedLoans s4
            in s5\<lparr>paginationState := (paginationState s5)
                    \<lparr>totalPages := ceilDiv (int (length view')) size\<rparr>\<rparr>)
         else s1)"

definition setPageSize :: "int \<Rightarrow> Store \<Rightarrow> Store" where
  "setPageSize newPageSize s =
     (let s1 = s\<lparr>resultCache := []\<rparr>;
          s2 = s1\<lparr>paginationState := (paginationState s1)
                 \<lparr>pageSize := newPageSize, currentPage := 0, loadedRowsCount := 0\<rparr>\<rparr>;
          (view, s3) = filteredAndSortedLoans s2;
          s4 = s3\<lparr>loadedLoans := slice view 0 newPageSize\<rparr>;
          s5 = s4\<lparr>paginationState := (paginationState s4)
                 \<lparr>currentPage := 1, loadedRowsCount := int (length (loadedLoans s4))\<rparr>\<rparr>;
          (view', s6) = filteredAndSortedLoans s5
      in s6\<lparr>paginationState := (paginationState s6)
              \<lparr>totalPages := ceilDiv (int (length view')) newPageSize\<rparr>\<rparr>)"

definition resetPagination :: "Store \<Rightarrow> Store" where
  "resetPagination s =
     loadNextPage (s\<lparr>paginationState := (paginationState s)
                       \<lparr>currentPage := 0, loadedRowsCount := 0\<rparr>\<rparr>)"

definition setSortState :: "SortableColumn \<Rightarrow> SortDirection \<Rightarrow> Store \<Rightarrow> Store" where
  "setSortState col dir s =
     resetPagination
       (assignSortState \<lparr>column = Some col, direction = dir\<rparr> (s\<lparr>resultCache := []\<rparr>))"

text \<open>
  \<^verbatim>\<open>Partial<FilterState>\<close>: a property that is present overrides the current one (for an
  optional field, also with \<^verbatim>\<open>undefined\<close>); an absent one keeps it.
\<close>

record PartialFilter =
  newSearch :: "string option"
  newStatus :: "string option"
  newMinAmount :: "int option option"
  newMaxAmount :: "int option option"
  newStartDate :: "string option option"
  newEndDate :: "string option option"

definition mergeFilter :: "FilterState \<Rightarrow> PartialFilter \<Rightarrow> FilterState" where
  "mergeFilter f p =
     \<lparr>search = (case newSearch p of None \<Rightarrow> search f | Some v \<Rightarrow> v),
      statusFilter = (case newStatus p of None \<Rightarrow> statusFilter f | Some v \<Rightarrow> v),
      minAmount = (case newMinAmount p of None \<Rightarrow> minAmount f | Some v \<Rightarrow> v),
      maxAmount = (case newMaxAmount p of None \<Rightarrow> maxAmount f | Some v \<Rightarrow> v),
      startDate = (case newStartDate p of None \<Rightarrow> startDate f | Some v \<Rightarrow> v),
      endDate = (case newEndDate p of None \<Rightarrow> endDate f | Some v \<Rightarrow> v)\<rparr>"

definition setFilter :: "PartialFilter \<Rightarrow> Store \<Rightarrow> Store" where
  "setFilter newFilter s =
     resetPagination
       (assignFilterState (mergeFilter (filterState s) newFilter) (s\<lparr>resultCache := []\<rparr>))"

definition clearCache :: "Store \<Rightarrow> Store" where
  "clearCache s = s\<lparr>resultCache := []\<rparr>"

subsection \<open>loadInitialData\<close>

text \<open>
  What the environment answers to the request. A thrown value is an \<^verbatim>\<open>Error\<close> object
  with its message or some other value. The request itself fails (network failure), or
  it gives a response with its \<^verbatim>\<open>ok\<close> flag and status text, whose body either fails to
  parse or is the array of loans.
\<close>

datatype thrown = ErrorObject string | OtherValue

datatype body = ParseFailure thrown | Parsed "Loan list"

datatype fetched = FetchFailure thrown | Response bool string body

text \<open>The statements before the first \<^verbatim>\<open>await\<close>: what a caller sees while the load runs.\<close>

definition loadInitialData_start :: "Store \<Rightarrow> Store" where
  "loadInitialData_start s = s\<lparr>isLoading := True, error := None\<rparr>"

text \<open>
  The rest of the \<^verbatim>\<open>try\<close> block, once the request is answered: \<open>Inl\<close> is a throw, with
  the store as it is at the throw.
\<close>

definition loadInitialData_try :: "fetched \<Rightarrow> Store \<Rightarrow> (thrown \<times> Store) + Store" where
  "loadInitialData_try answer s =
     (case answer of
        FetchFailure err \<Rightarrow> Inl (err, s)
      | Response ok statusText' content \<Rightarrow>
          if \<not> ok then Inl (ErrorObject (''Failed to load data: '' @ statusText'), s)
          else (case content of
                  ParseFailure err \<Rightarrow> Inl (err, s)
                | Parsed data \<Rightarrow> Inr (loadNextPage (assignAllLoans data s))))"

text \<open>
  The message that the \<^verbatim>\<open>catch\<close> block records:
  \<^verbatim>\<open>err instanceof Error ? err.message : 'Failed to load data'\<close>.
\<close>

fun caughtMessage :: "thrown \<Rightarrow> string" where
  "caughtMessage (ErrorObject msg) = msg"
| "caughtMessage OtherValue = ''Failed to load data''"

text \<open>
  The \<^verbatim>\<open>catch\<close> and \<^verbatim>\<open>finally\<close> blocks, run on the store as it is when the request
  is answered. The result is \<open>Inl\<close> when an exception leaves the action (the promise is
  rejected), \<open>Inr\<close> with the final store otherwise.
\<close>

definition loadInitialData_finish :: "fetched \<Rightarrow> Store \<Rightarrow> thrown + Store" where
  "loadInitialData_finish answer s =
     (case loadInitialData_try answer s of
        Inl (err, s1) \<Rightarrow> Inr (s1\<lparr>error := Some (caughtMessage err), isLoading := False\<rparr>)
      | Inr s1 \<Rightarrow> Inr (s1\<lparr>isLoading := False\<rparr>))"

text \<open>
  The whole action, with no other action between the request and its answer: the first
  component is the store that the caller sees while the request is pending, the second
  the result of the action.
\<close>

definition loadInitialData :: "fetched \<Rightarrow> Store \<Rightarrow> Store \<times> (thrown + Store)" where
  "loadInitialData answer s =
     (let pending = loadInitialData_start s
      in (pending, loadInitialData_finish answer pending))"

subsection \<open>Sequences of actions\<close>

text \<open>
  The actions of the store, and \<open>ReadView\<close> for a read of \<open>filteredAndSortedLoans\<close> (or of
  \<open>totalFilteredCount\<close> or \<open>hasMoreData\<close>, which read it) by a consumer.
\<close>

datatype action =
    LoadInitialData fetched
  | ReadView
  | LoadNextPage
  | SetPageSize int
  | SetSortState SortableColumn SortDirection
  | SetFilter PartialFilter
  | ResetPagination
  | ClearCache

fun perform :: "action \<Rightarrow> Store \<Rightarrow> Store" where
  "perform (LoadInitialData answer) s =
     (case snd (loadInitialData answer s) of Inl err \<Rightarrow> s | Inr s' \<Rightarrow> s')"
| "perform ReadView s = snd (filteredAndSortedLoans s)"
| "perform LoadNextPage s = loadNextPage s"
| "perform (SetPageSize n) s = setPageSize n s"
| "perform (SetSortState col dir) s = setSortState col dir s"
| "perform (SetFilter p) s = setFilter p s"
| "perform ResetPagination s = resetPagination s"
| "perform ClearCache s = clearCache s"

definition performAll :: "action list \<Rightarrow> Store \<Rightarrow> Store" where
  "performAll acts s = foldl (\<lambda>st a. perform a st) s acts"

text \<open>The view a consumer reads from a store: the value of \<open>filteredAndSortedLoans\<close>.\<close>

definition currentView :: "Store \<Rightarrow> Loan list" where
  "currentView s = fst (filteredAndSortedLoans s)"

text \<open>The same view computed without the cache.\<close>

definition uncachedView :: "Store \<Rightarrow> Loan list" where
  "uncachedView s =
     sortLoans (filterLoans (allLoans s) (filterState s)) (column (sortState s))
       (direction (sortState s))"

section \<open>Notions used to state the properties\<close>

text \<open>The key under which the current criteria of a store are cached.\<close>

definition currentKey :: "Store \<Rightarrow> cacheKey" where
  "currentKey s = getCacheKey (filterState s) (column (sortState s)) (direction (sortState s))"

text \<open>The value that the computed value keeps from the last run of its getter, if any.\<close>

definition keptValue :: "Store \<Rightarrow> Loan list option" where
  "keptValue s = map_option fst (computedValue s)"

text \<open>The cache holds at most one entry, and only under the key of the current criteria.\<close>

definition oneEntry :: "Store \<Rightarrow> bool" where
  "oneEntry s =
     (length (resultCache s) \<le> 1 \<and> list_all (\<lambda>p. fst p = currentKey s) (resultCache s))"

text \<open>
  The visible range in the words of the specification: the first row is
  \<open>max(0, floor(scrollOffset / rowHeight) - overscan)\<close>, the last one
  \<open>min(totalLoadedRows - 1, ceil((scrollOffset + viewportHeight) / rowHeight) + overscan)\<close>.
  The quotient and the sum are the exact ones.
\<close>

definition specStart :: "rat \<Rightarrow> rat \<Rightarrow> int \<Rightarrow> int" where
  "specStart scrollOffset rowHeight overscan = max 0 (\<lfloor>scrollOffset / rowHeight\<rfloor> - overscan)"

definition specEnd :: "rat \<Rightarrow> rat \<Rightarrow> rat \<Rightarrow> int \<Rightarrow> int \<Rightarrow> int" where
  "specEnd scrollOffset viewportHeight rowHeight totalLoadedRows overscan =
     min (totalLoadedRows - 1) (\<lceil>(scrollOffset + viewportHeight) / rowHeight\<rceil> + overscan)"

text \<open>
  One more constraint on the criteria: a search term, a status, or an amount or date
  bound. \<open>strengthens k c\<close> holds when \<open>k\<close> adds a constraint that \<open>c\<close> does not have
  or tightens the bound that \<open>c\<close> has: a search term or a status where \<open>c\<close> has none,
  a lower bound not below the present one, an upper bound not above the present one
  (an empty end date is no bound, so it tightens nothing).
\<close>

datatype constraint =
    SearchTerm string
  | StatusIs string
  | MinAmount int
  | MaxAmount int
  | StartDate string
  | EndDate string

fun addConstraint :: "constraint \<Rightarrow> FilterState \<Rightarrow> FilterState" where
  "addConstraint (SearchTerm t) c = c\<lparr>search := t\<rparr>"
| "addConstraint (StatusIs st) c = c\<lparr>statusFilter := st\<rparr>"
| "addConstraint (MinAmount m) c = c\<lparr>minAmount := Some m\<rparr>"
| "addConstraint (MaxAmount m) c = c\<lparr>maxAmount := Some m\<rparr>"
| "addConstraint (StartDate d) c = c\<lparr>startDate := Some d\<rparr>"
| "addConstraint (EndDate d) c = c\<lparr>endDate := Some d\<rparr>"

fun strengthens :: "constraint \<Rightarrow> FilterState \<Rightarrow> bool" where
  "strengthens (SearchTerm t) c = (search c = [])"
| "strengthens (StatusIs st) c = (statusFilter c = [] \<or> statusFilter c = ''All'')"
| "strengthens (MinAmount m) c = (case minAmount c of None \<Rightarrow> True | Some m0 \<Rightarrow> m0 \<le> m)"
| "strengthens (MaxAmount m) c = (case maxAmount c of None \<Rightarrow> True | Some m0 \<Rightarrow> m \<le> m0)"
| "strengthens (StartDate d) c = (case startDate c of None \<Rightarrow> True | Some d0 \<Rightarrow> d0 \<le> d)"
| "strengthens (EndDate d) c =
     (case endDate c of None \<Rightarrow> True | Some d0 \<Rightarrow> d0 = [] \<or> (d \<noteq> [] \<and> d \<le> d0))"

text \<open>The answers on which the load fails: no response, a response that is not OK, or a
  body that does not parse.\<close>

fun loadFailed :: "fetched \<Rightarrow> bool" where
  "loadFailed (FetchFailure err) = True"
| "loadFailed (Response ok st (ParseFailure err)) = True"
| "loadFailed (Response ok st (Parsed data)) = (\<not> ok)"

text \<open>
  The order in which \<open>sortLoans\<close> arranges two loans in the ascending direction: by
  the (lower-cased) value of the column, and by ascending id where the values are equal.
\<close>

definition precedes :: "SortableColumn \<Rightarrow> Loan \<Rightarrow> Loan \<Rightarrow> bool" where
  "precedes col a b =
     (cellLess (lowerCell (cellOf col a)) (lowerCell (cellOf col b))
      \<or> (lowerCell (cellOf col a) = lowerCell (cellOf col b) \<and> id' a \<le> id' b))"

text \<open>
  Every entry of the cache, and the value that the computed value keeps, is the result of
  the current criteria on the current data.
\<close>

definition cacheFresh :: "Store \<Rightarrow> bool" where
  "cacheFresh s =
     (list_all (\<lambda>p. fst p = currentKey s \<and> snd p = uncachedView s) (resultCache s)
      \<and> (keptValue s = None \<or> keptValue s = Some (uncachedView s)))"

text \<open>The actions that do not replace the data.\<close>

fun keepsData :: "action \<Rightarrow> bool" where
  "keepsData (LoadInitialData answer) = False"
| "keepsData a = True"

text \<open>The message that a failed load is to record, by the kind of the failure.\<close>

fun failureText :: "fetched \<Rightarrow> string" where
  "failureText (FetchFailure err) = caughtMessage err"
| "failureText (Response ok reason content) =
     (if \<not> ok then ''Failed to load data: '' @ reason
      else (case content of ParseFailure err \<Rightarrow> caughtMessage err | Parsed data \<Rightarrow> []))"

section \<open>Example data\<close>

definition loan1 :: Loan where
  "loan1 = \<lparr>id' = 1, borrowerName = ''John Smith'', amount = 1000, status = Approved,
     closeDate = ''2024-03-01''\<rparr>"

definition loan2 :: Loan where
  "loan2 = \<lparr>id' = 2, borrowerName = ''Jane Brown'', amount = 1000, status = Pending,
     closeDate = ''2024-05-01''\<rparr>"

definition noChange :: PartialFilter where
  "noChange = \<lparr>newSearch = None, newStatus = None, newMinAmount = None, newMaxAmount = None,
     newStartDate = None, newEndDate = None\<rparr>"

text \<open>On a fresh store, the page size is set and then the data are loaded.\<close>

definition afterSizeThenLoad :: Store where
  "afterSizeThenLoad = performAll
     [SetPageSize 25, LoadInitialData (Response True ''OK'' (Parsed [loan1, loan2]))] initialStore"

text \<open>A load of one approved loan, then a status filter that no loan matches.\<close>

definition afterEmptyFilter :: Store where
  "afterEmptyFilter = performAll
     [LoadInitialData (Response True ''OK'' (Parsed [loan1])),
      SetFilter (noChange\<lparr>newStatus := Some ''Rejected''\<rparr>)] initialStore"

text \<open>A load of one loan, and a second load after it that fails in the network.\<close>

definition afterFirstLoad :: Store where
  "afterFirstLoad =
     performAll [LoadInitialData (Response True ''OK'' (Parsed [loan1]))] initialStore"

definition afterFailedReload :: Store where
  "afterFailedReload =
     perform (LoadInitialData (FetchFailure (ErrorObject ''Failed to fetch''))) afterFirstLoad"

text \<open>A store whose data are sixty loans, all of which pass the initial criteria.\<close>

definition sixtyLoans :: "Loan list" where
  "sixtyLoans =
     map (\<lambda>i. \<lparr>id' = int i, borrowerName = ''Borrower'', amount = 1000 + int i,
               status = Pending, closeDate = ''2024-01-01''\<rparr>) [1..<61]"

definition sixtyStore :: Store where
  "sixtyStore = initialStore\<lparr>allLoans := sixtyLoans\<rparr>"

text \<open>
  The doubles that the literals \<^verbatim>\<open>0.1\<close>, \<^verbatim>\<open>0.2\<close> and \<^verbatim>\<open>0.3333333333333333\<close> denote.
\<close>

definition double01 :: rat where
  "double01 = 3602879701896397 / 36028797018963968"

definition double02 :: rat where
  "double02 = 3602879701896397 / 18014398509481984"

definition doubleThird :: rat where
  "doubleThird = 6004799503160661 / 18014398509481984"

section \<open>The visible range\<close>

subsection \<open>Rounding to a double\<close>

lemma pow2_nat: "0 \<le> k \<Longrightarrow> (2::rat) powi k = 2 ^ nat k"
  by (rule power_int_nonneg_exp)

lemma expo_bounds:
  assumes "0 < x"
  shows "2 powi expo x \<le> x" and "x < 2 powi (expo x + 1)"
proof -
  have "2 powi expo x \<le> x \<and> x < 2 powi (expo x + 1)"
  proof (cases "1 \<le> x")
    case True
    define n where "n = \<lfloor>x\<rfloor>"
    have n: "0 < n" "of_int n \<le> x" "x < of_int n + 1"
      using True floor_correct [of x] by (auto simp: n_def)
    from bitlen_bounds [OF n(1)]
    have low: "2 ^ nat (bitlen n - 1) \<le> n" and high: "n < 2 ^ nat (bitlen n)"
      by simp_all
    have pos: "1 \<le> bitlen n"
      using n(1) bitlen_eq_zero_iff [of n] bitlen_nonneg [of n] by linarith
    have e: "expo x = bitlen n - 1"
      using True by (simp add: expo_def n_def)
    have "(2::rat) powi (bitlen n - 1) = of_int (2 ^ nat (bitlen n - 1))"
      using pos by (simp add: pow2_nat)
    also have "\<dots> \<le> of_int n"
      using low by (simp only: of_int_le_iff)
    finally have lower: "2 powi (bitlen n - 1) \<le> x"
      using n(2) by linarith
    from high have "n + 1 \<le> 2 ^ nat (bitlen n)" by simp
    then have "(of_int (n + 1) :: rat) \<le> of_int (2 ^ nat (bitlen n))"
      by (simp only: of_int_le_iff)
    also have "\<dots> = 2 powi bitlen n"
      using pos by (simp add: pow2_nat)
    finally have "x < 2 powi bitlen n"
      using n(3) by simp
    with lower e show ?thesis by simp
  next
    case False
    define y where "y = 1 / x"
    define m where "m = \<lceil>y\<rceil>"
    define c where "c = bitlen (m - 1)"
    from False assms have y1: "1 < y"
      by (simp add: y_def)
    then have m: "2 \<le> m" "of_int m - 1 < y" "y \<le> of_int m"
      by (auto simp: m_def less_ceiling_iff) linarith+
    then have m1: "0 < m - 1" by simp
    from bitlen_bounds [OF m1]
    have low: "2 ^ nat (c - 1) \<le> m - 1" and high: "m - 1 < 2 ^ nat c"
      by (simp_all add: c_def)
    have pos: "1 \<le> c"
      using m1 bitlen_eq_zero_iff [of "m - 1"] bitlen_nonneg [of "m - 1"]
      unfolding c_def by linarith
    have e: "expo x = - c"
      using False by (simp add: expo_def c_def m_def y_def)
    from high have "m \<le> 2 ^ nat c" by simp
    then have "(of_int m :: rat) \<le> of_int (2 ^ nat c)"
      by (simp only: of_int_le_iff)
    then have "(of_int m :: rat) \<le> 2 ^ nat c" by simp
    with m(3) have yu: "y \<le> 2 ^ nat c" by linarith
    from low have "(of_int (2 ^ nat (c - 1)) :: rat) \<le> of_int (m - 1)"
      by (simp only: of_int_le_iff)
    then have "(2 ^ nat (c - 1) :: rat) \<le> of_int m - 1" by simp
    with m(2) have yl: "2 ^ nat (c - 1) < y" by linarith
    have x: "x = 1 / y" by (simp add: y_def)
    have ypos: "0 < y" using y1 by simp
    have "(2::rat) powi (- c) = 1 / 2 ^ nat c"
      using pos by (simp add: power_int_minus_divide pow2_nat)
    also have "\<dots> \<le> 1 / y"
      using yu ypos by (simp add: frac_le)
    finally have lower: "2 powi (- c) \<le> x" by (simp add: x)
    have "1 / y < 1 / 2 ^ nat (c - 1)"
      using yl by (simp add: frac_less2)
    also have "\<dots> = (2::rat) powi (- (c - 1))"
    proof -
      have "(2::rat) powi (c - 1) = 2 ^ nat (c - 1)"
        using pos by (intro pow2_nat) simp
      then show ?thesis by (simp only: power_int_minus_divide)
    qed
    finally have "x < 2 powi (- c + 1)" by (simp add: x)
    with lower e show ?thesis by simp
  qed
  then show "2 powi expo x \<le> x" and "x < 2 powi (expo x + 1)" by simp_all
qed

lemma roundEven_error: "\<bar>roundEven k x - x\<bar> \<le> 2 powi k / 2"
proof -
  define u :: rat where "u = 2 powi k"
  define y where "y = x / u"
  define n where "n = \<lfloor>y\<rfloor>"
  define m where "m = (if y - of_int n < 1 / 2 then n else if 1 / 2 < y - of_int n then n + 1
               else if even n then n else n + 1)"
  have u: "0 < u" by (simp add: u_def)
  have n: "of_int n \<le> y" "y < of_int n + 1"
    using floor_correct [of y] by (simp_all add: n_def)
  have near: "\<bar>of_int m - y\<bar> \<le> 1 / 2"
    using n by (auto simp: m_def)
  have r: "roundEven k x = of_int m * u"
    by (simp add: roundEven_def Let_def m_def n_def y_def u_def)
  have x: "y * u = x" using u by (simp add: y_def)
  have "(of_int m - y) * u = of_int m * u - y * u"
    by (simp add: algebra_simps)
  also have "\<dots> = roundEven k x - x"
    by (simp only: r x)
  finally have "roundEven k x - x = (of_int m - y) * u" by simp
  then have "\<bar>roundEven k x - x\<bar> = \<bar>of_int m - y\<bar> * u"
    using u by (simp add: abs_mult)
  also have "\<dots> \<le> 1 / 2 * u"
    using near u by (intro mult_right_mono) simp_all
  finally show ?thesis by (simp add: u_def)
qed

lemma roundEven_exact: "roundEven k (of_int j * 2 powi k) = of_int j * 2 powi k"
  by (simp add: roundEven_def Let_def)

lemma round64_int:
  assumes "\<bar>j\<bar> < 2 ^ 53"
  shows "round64 (of_int j) = Some (of_int j)"
proof (cases "j = 0")
  case True
  then show ?thesis by (simp add: round64_def)
next
  case False
  define e where "e = expo \<bar>of_int j\<bar>"
  define k where "k = max (e - 52) (- 1074)"
  have pos: "(0::rat) < \<bar>of_int j\<bar>" using False by simp
  have "2 powi e \<le> \<bar>of_int j :: rat\<bar>"
    unfolding e_def using pos by (rule expo_bounds)
  also have "\<bar>of_int j :: rat\<bar> = of_int \<bar>j\<bar>" by simp
  also have "\<dots> < of_int (2 ^ 53)"
    using assms by (simp only: of_int_less_iff)
  finally have "(2::rat) powi e < 2 powi 53" by simp
  then have "e < 53"
    using power_int_increasing [of 53 e "2::rat"] by (cases "e < 53") auto
  then have k: "k \<le> 0" by (simp add: k_def)
  have "(2::rat) powi (- k) = 2 ^ nat (- k)"
    using k by (simp add: pow2_nat)
  moreover have "(2::rat) powi (- k) * 2 powi k = 1"
    by (simp flip: power_int_add)
  ultimately have "(2::rat) ^ nat (- k) * 2 powi k = 1" by simp
  then have "of_int (j * 2 ^ nat (- k)) * 2 powi k = (of_int j :: rat)"
    by (simp add: mult.assoc)
  then have "roundEven k (of_int j) = of_int j"
    using roundEven_exact [of k "j * 2 ^ nat (- k)"] by (simp only:)
  moreover have "\<bar>of_int j :: rat\<bar> < 2 ^ 1024"
  proof -
    have "\<bar>of_int j :: rat\<bar> < of_int (2 ^ 53)"
      using assms by (simp only: of_int_abs [symmetric] of_int_less_iff)
    also have "\<dots> \<le> 2 ^ 1024" by simp
    finally show ?thesis .
  qed
  ultimately show ?thesis
    using False by (simp add: round64_def Let_def k_def e_def)
qed


lemma round64_quotient:
  assumes a: "0 < a" "a < 2 ^ 53" and b: "0 < b" "b < 2 ^ 53"
  shows "\<exists>r. round64 (of_int a / of_int b) = Some r \<and> \<lfloor>r\<rfloor> = a div b
           \<and> \<lceil>r\<rceil> = - ((- a) div b)"
proof -
  define A :: rat where "A = of_int a"
  define B :: rat where "B = of_int b"
  define q where "q = A / B"
  define e where "e = expo q"
  define k where "k = e - 52"
  define r where "r = roundEven k q"
  define n where "n = a div b"
  define t where "t = a mod b"
  have A: "1 \<le> A" "A < 2 ^ 53"
    using a by (simp_all add: A_def)
  have B: "1 \<le> B" "B < 2 ^ 53"
    using b by (simp_all add: B_def)
  have qpos: "0 < q" using A B by (simp add: q_def)
  have qA: "q \<le> A"
    using A B by (simp add: q_def field_simps mult_le_cancel_left1)
  have qB: "1 / B \<le> q"
    using A B by (simp add: q_def divide_right_mono)
  have low: "2 powi e \<le> q" and high: "q < 2 powi (e + 1)"
    unfolding e_def using qpos by (rule expo_bounds)+
  have "(2::rat) powi e < 2 powi 53"
    using low qA A by simp
  then have e53: "e < 53"
    using power_int_increasing [of 53 e "2::rat"] by (cases "e < 53") auto
  have "(2::rat) powi (- 53) = 1 / 2 ^ 53"
    by (simp add: power_int_minus_divide)
  also have "\<dots> < 1 / B"
    using B by (simp add: frac_less2)
  finally have "(2::rat) powi (- 53) < 2 powi (e + 1)"
    using qB high by linarith
  then have elow: "- 53 < e + 1"
    using power_int_increasing [of "e + 1" "- 53" "2::rat"] by (cases "- 53 < e + 1") auto
  have kmax: "max (e - 52) (- 1074) = k" and k0: "k \<le> 0"
    using elow e53 by (simp_all add: k_def)
  have "(2::rat) powi (e + (- 52)) = 2 powi e * 2 powi (- 52)"
    by (rule power_int_add) simp
  moreover have "e + (- 52) = k" by (simp add: k_def)
  ultimately have "(2::rat) powi k = 2 powi e * 2 powi (- 52)"
    by (simp only:)
  also have "\<dots> = 2 powi e / 2 ^ 52"
    by (simp only: power_int_minus_divide power_int_numeral times_divide_eq_right mult_1_right)
  finally have "(2::rat) powi k / 2 = 2 powi e / 2 ^ 53"
    by simp
  also have "\<dots> \<le> q / 2 ^ 53"
    using low by (simp add: divide_right_mono)
  also have "\<dots> < 1 / B"
  proof -
    have "q * B = A" using B by (simp add: q_def)
    then have "q * B < 2 ^ 53" using A by simp
    then show ?thesis using B by (simp add: field_simps)
  qed
  finally have half: "(2::rat) powi k / 2 < 1 / B" .
  have err: "\<bar>r - q\<bar> < 1 / B"
    using roundEven_error [of k q] half by (simp add: r_def)
  have split: "a = n * b + t" and t: "0 \<le> t" "t < b"
    using b by (simp_all add: n_def t_def)
  have n0: "0 \<le> n"
    using a b by (simp add: n_def pos_imp_zdiv_nonneg_iff)
  then have "n * 1 \<le> n * b"
    using b by (intro mult_left_mono) simp_all
  with split t have na: "n \<le> a" by linarith
  note n = n0 na
  have qn: "q = of_int n + of_int t / B"
  proof -
    have "A = of_int n * B + of_int t"
      unfolding A_def B_def by (subst split) simp
    then show ?thesis using B by (simp add: q_def field_simps)
  qed
  have result: "\<lfloor>r\<rfloor> = n \<and> \<lceil>r\<rceil> = - ((- a) div b) \<and> 0 \<le> r \<and> r \<le> of_int n + 1"
  proof (cases "t = 0")
    case True
    then have q: "q = of_int n" by (simp add: qn)
    have "(2::rat) powi (- k) = 2 ^ nat (- k)"
      using k0 by (simp add: power_int_nonneg_exp)
    moreover have "(2::rat) powi (- k) * 2 powi k = 1"
      by (simp flip: power_int_add)
    ultimately have "(2::rat) ^ nat (- k) * 2 powi k = 1" by simp
    then have "of_int (n * 2 ^ nat (- k)) * 2 powi k = (of_int n :: rat)"
      by (simp add: mult.assoc)
    then have "roundEven k (of_int n) = of_int n"
      using roundEven_exact [of k "n * 2 ^ nat (- k)"] by (simp only:)
    then have r: "r = of_int n" by (simp add: r_def q)
    have "a mod b = 0" using True by (simp add: t_def)
    then have "(- a) div b = - n"
      using b by (simp add: zdiv_zminus1_eq_if n_def)
    with r n show ?thesis by simp
  next
    case False
    with t have tpos: "1 \<le> t" by simp
    have "1 / B \<le> of_int t / B"
      using tpos B by (simp add: divide_right_mono)
    then have gap1: "1 / B \<le> q - of_int n" by (simp add: qn)
    have "of_int t + 1 \<le> B"
      using t by (simp add: B_def flip: of_int_add)
    then have "(of_int t + 1) / B \<le> 1"
      using B by simp
    then have "of_int t / B + 1 / B \<le> 1"
      by (simp add: add_divide_distrib)
    then have gap2: "1 / B \<le> of_int n + 1 - q" by (simp add: qn)
    from err gap1 gap2 have between: "of_int n < r" "r < of_int n + 1"
      by (simp_all add: abs_less_iff)
    then have fl: "\<lfloor>r\<rfloor> = n"
      by (intro floor_unique) simp_all
    from between have ce: "\<lceil>r\<rceil> = n + 1"
      by (intro ceiling_unique) simp_all
    have "a mod b \<noteq> 0" using False by (simp add: t_def)
    then have "(- a) div b = - n - 1"
      using b by (simp add: zdiv_zminus1_eq_if n_def)
    with fl ce between n show ?thesis by simp
  qed
  have "of_int n + 1 \<le> (2::rat) ^ 53"
  proof -
    from n a have "n + 1 \<le> 2 ^ 53" by simp
    then have "(of_int (n + 1) :: rat) \<le> of_int (2 ^ 53)"
      by (simp only: of_int_le_iff)
    then show ?thesis by simp
  qed
  also have "(2::rat) ^ 53 < 2 ^ 1024" by simp
  finally have "\<bar>r\<bar> < 2 ^ 1024"
    using result by simp
  then have "round64 q = Some r"
    using qpos kmax by (simp add: round64_def Let_def r_def e_def)
  with result show ?thesis
    by (simp add: q_def A_def B_def n_def)
qed


lemma divide64_integers:
  assumes a: "0 \<le> a" "a < 2 ^ 53" and b: "0 < b" "b < 2 ^ 53"
  shows "\<exists>r. divide64 (of_int a) (of_int b) = Some r \<and> \<lfloor>r\<rfloor> = a div b
           \<and> \<lceil>r\<rceil> = - ((- a) div b)"
proof (cases "a = 0")
  case True
  then show ?thesis using b by (simp add: divide64_def round64_def)
next
  case False
  with a have "0 < a" by simp
  from round64_quotient [OF this a(2) b] show ?thesis
    using b by (simp add: divide64_def)
qed

lemma plus64_integers: "\<bar>i + j\<bar> < 2 ^ 53 \<Longrightarrow> plus64 (of_int i) (of_int j) = Some (of_int (i + j))"
  using round64_int [of "i + j"] by (simp add: plus64_def)

lemma minus64_integers: "\<bar>i - j\<bar> < 2 ^ 53 \<Longrightarrow> minus64 (of_int i) (of_int j) = Some (of_int (i - j))"
  using round64_int [of "i - j"] by (simp add: minus64_def)

lemma round64_small:
  assumes "x \<noteq> 0" and "roundEven (max (expo \<bar>x\<bar> - 52) (- 1074)) x = r" and "\<bar>r\<bar> < 2 ^ 53"
  shows "round64 x = Some r"
proof -
  have "(2::rat) ^ 53 \<le> 2 ^ 1024" by (rule power_increasing) simp_all
  with assms(3) have "\<not> 2 ^ 1024 \<le> \<bar>r\<bar>" by linarith
  with assms(1,2) show ?thesis by (simp add: round64_def Let_def)
qed

subsection \<open>Whole pixel measures\<close>

lemma calculateVisibleRange64_integer_arguments:
  assumes a: "0 \<le> a" "a < 2 ^ 51" and v: "0 \<le> v" "v < 2 ^ 51"
    and h: "0 < h" "h < 2 ^ 51" and n: "0 \<le> n" "n < 2 ^ 51" and ov: "\<bar>ov\<bar> < 2 ^ 51"
  shows "calculateVisibleRange64 (of_int a) (of_int v) (of_int h) (of_int n) (Some (of_int ov))
    = Some (of_int (specStart (of_int a) (of_int h) ov),
            of_int (specEnd (of_int a) (of_int v) (of_int h) n ov))"
proof -
  define topRow where "topRow = a div h"
  define bottomRow where "bottomRow = - ((- (a + v)) div h)"
  have topRow: "0 \<le> topRow" "topRow \<le> a"
  proof -
    show "0 \<le> topRow" using a h by (simp add: topRow_def pos_imp_zdiv_nonneg_iff)
    then have "topRow * 1 \<le> topRow * h" using h by (intro mult_left_mono) simp_all
    moreover have "topRow * h + a mod h = a"
      by (simp add: topRow_def)
    moreover have "0 \<le> a mod h"
      using h by simp
    ultimately show "topRow \<le> a" by linarith
  qed
  have bottomRow: "0 \<le> bottomRow" "bottomRow \<le> a + v"
  proof -
    have c: "bottomRow = \<lceil>(of_int (a + v) :: rat) / of_int h\<rceil>"
      by (simp only: bottomRow_def ceiling_divide_eq_div)
    have q: "0 \<le> (of_int (a + v) :: rat) / of_int h"
      using a v h by simp
    then show "0 \<le> bottomRow" unfolding c by (simp add: le_ceiling_iff)
    have "(of_int (a + v) :: rat) / of_int h \<le> of_int (a + v)"
    proof -
      have "(1::rat) \<le> of_int h" using h by simp
      moreover have "(0::rat) \<le> of_int (a + v)" using a v by simp
      ultimately have "(of_int (a + v) :: rat) / of_int h \<le> of_int (a + v) / 1"
        by (intro divide_left_mono) simp_all
      then show ?thesis by simp
    qed
    then show "bottomRow \<le> a + v" unfolding c by (simp add: ceiling_le_iff)
  qed
  from divide64_integers [of a h] a h obtain r1 where
    r1: "divide64 (of_int a) (of_int h) = Some r1" "\<lfloor>r1\<rfloor> = topRow"
    by (auto simp: topRow_def)
  from divide64_integers [of "a + v" h] a v h obtain r2 where
    r2: "divide64 (of_int (a + v)) (of_int h) = Some r2" "\<lceil>r2\<rceil> = bottomRow"
    by (auto simp: bottomRow_def)
  have first: "minus64 (of_int topRow) (of_int ov) = Some (of_int (topRow - ov))"
    using topRow a ov by (intro minus64_integers) simp
  have edge: "plus64 (of_int a) (of_int v) = Some (of_int (a + v))"
    using a v by (intro plus64_integers) simp
  have final: "plus64 (of_int bottomRow) (of_int ov) = Some (of_int (bottomRow + ov))"
    using bottomRow a v ov by (intro plus64_integers) simp
  have lastRow: "minus64 (of_int n) 1 = Some (of_int (n - 1))"
    using n minus64_integers [of n 1] by simp
  have start: "specStart (of_int a) (of_int h) ov = max 0 (topRow - ov)"
    by (simp add: specStart_def topRow_def floor_divide_of_int_eq)
  have "(of_int a + of_int v :: rat) / of_int h = of_int (a + v) / of_int h" by simp
  then have "\<lceil>(of_int a + of_int v :: rat) / of_int h\<rceil> = bottomRow"
    by (simp only: bottomRow_def ceiling_divide_eq_div)
  then have end': "specEnd (of_int a) (of_int v) (of_int h) n ov = min (n - 1) (bottomRow + ov)"
    by (simp add: specEnd_def)
  show ?thesis
    unfolding start end'
    by (simp add: calculateVisibleRange64_def r1 r2 first edge final lastRow
        of_int_max of_int_min del: of_int_add of_int_diff)
qed

subsection \<open>The formula of the range\<close>

text \<open>
  C5, as stated, fails for pixel measures that are not whole numbers: every operation of
  \<open>calculateVisibleRange\<close> rounds its result to a double, and a quotient next to a whole
  number can round onto it or away from it. With a scroll offset of 0.1, a viewport
  height of 0.2, a row height of 0.1, 100 loaded rows and an overscan of 0, the sum of the
  offset and the height rounds up to 0.30000000000000004 and its quotient by the row
  height to 3.0000000000000004: the function returns the end index 4, where the formula
  of the specification gives 3 on the same three doubles (the start index is 1 in both).
  With a scroll offset of 0, a viewport height of 1 and a row height of
  0.3333333333333333, the quotient rounds down to 3: the function returns the end index
  3, where the formula gives 4.
\<close>

theorem calculateVisibleRange64_rounds:
  "round64 (1 / 10) = Some double01 \<and> round64 (2 / 10) = Some double02
   \<and> 0 \<le> double01 \<and> 0 \<le> double02 \<and> 0 < double01
   \<and> calculateVisibleRange64 double01 double02 double01 100 (Some 0) = Some (1, 4)
   \<and> specStart double01 double01 0 = 1
   \<and> specEnd double01 double02 double01 100 0 = 3
   \<and> round64 (3333333333333333 / 10000000000000000) = Some doubleThird
   \<and> 0 < doubleThird
   \<and> calculateVisibleRange64 0 1 doubleThird 100 (Some 0) = Some (0, 3)
   \<and> specStart 0 doubleThird 0 = 0
   \<and> specEnd 0 1 doubleThird 100 0 = 4"
proof -
  have tenth: "round64 (1 / 10) = Some double01"
    by (rule round64_small; code_simp)
  have fifth: "round64 (2 / 10) = Some double02"
    by (rule round64_small; code_simp)
  have third: "round64 (3333333333333333 / 10000000000000000) = Some doubleThird"
    by (rule round64_small; code_simp)
  have sign: "0 \<le> double01" "0 \<le> double02" "0 < double01" "0 < doubleThird"
    by code_simp+
  have height: "double01 \<noteq> 0" "doubleThird \<noteq> 0"
    by code_simp+
  have lastRow: "minus64 100 1 = Some 99"
    unfolding minus64_def by (rule round64_small; code_simp)
  have "round64 (double01 / double01) = Some 1"
    by (rule round64_small; code_simp)
  with height have topRow: "divide64 double01 double01 = Some 1"
    by (simp only: divide64_def if_False)
  have first: "minus64 (of_int \<lfloor>1 :: rat\<rfloor>) 0 = Some 1"
    unfolding minus64_def by (rule round64_small; code_simp)
  have bottomEdge: "plus64 double01 double02 = Some (1351079888211149 / 4503599627370496)"
    unfolding plus64_def by (rule round64_small; code_simp)
  have "round64 (1351079888211149 / 4503599627370496 / double01)
      = Some (6755399441055745 / 2251799813685248)"
    by (rule round64_small; code_simp)
  with height have bottomRow: "divide64 (1351079888211149 / 4503599627370496) double01
      = Some (6755399441055745 / 2251799813685248)"
    by (simp only: divide64_def if_False)
  have final: "plus64 (of_int \<lceil>6755399441055745 / 2251799813685248 :: rat\<rceil>) 0 = Some 4"
    unfolding plus64_def by (rule round64_small; code_simp)
  have range: "calculateVisibleRange64 double01 double02 double01 100 (Some 0) = Some (1, 4)"
    by (simp only: calculateVisibleRange64_def Let_def option.case topRow first bottomEdge
        bottomRow final lastRow) simp
  have start: "specStart double01 double01 0 = 1"
    by code_simp
  have end': "specEnd double01 double02 double01 100 0 = 3"
    by code_simp
  from height have topRow': "divide64 0 doubleThird = Some 0"
    by (simp add: divide64_def round64_def)
  have first': "minus64 (of_int \<lfloor>0 :: rat\<rfloor>) 0 = Some 0"
    by (simp add: minus64_def round64_def)
  have bottomEdge': "plus64 0 1 = Some 1"
    unfolding plus64_def by (rule round64_small; code_simp)
  have "round64 (1 / doubleThird) = Some 3"
    by (rule round64_small; code_simp)
  with height have bottomRow': "divide64 1 doubleThird = Some 3"
    by (simp only: divide64_def if_False)
  have final': "plus64 (of_int \<lceil>3 :: rat\<rceil>) 0 = Some 3"
    unfolding plus64_def by (rule round64_small; code_simp)
  have range': "calculateVisibleRange64 0 1 doubleThird 100 (Some 0) = Some (0, 3)"
    by (simp only: calculateVisibleRange64_def Let_def option.case topRow' first' bottomEdge'
        bottomRow' final' lastRow) simp
  have start': "specStart 0 doubleThird 0 = 0"
    by code_simp
  have end'': "specEnd 0 1 doubleThird 100 0 = 4"
    by code_simp
  from tenth fifth third sign range start end' range' start' end'' show ?thesis
    by (simp only: simp_thms)
qed

text \<open>
  C5, amended. When the scroll offset, the viewport height, the row height, the number of
  loaded rows and the overscan are whole numbers, the first four at least 0 (the row
  height above 0) and all five below \<open>2 ^ 51\<close> in magnitude, no operation of
  \<open>calculateVisibleRange\<close> rounds across a whole number, and the function returns exactly
  the start index \<open>max(0, floor(scrollOffset / rowHeight) - overscan)\<close> and the end index
  \<open>min(totalLoadedRows - 1, ceil((scrollOffset + viewportHeight) / rowHeight) + overscan)\<close>
  of the specification, with an overscan of 5 when none is given; and for a scroll offset
  of 200, a viewport height of 100, a row height of 20, 200 loaded rows and an overscan
  of 5 it returns the start 5 and the end 20. For other pixel measures the end index can
  be one above or one below the formula.
\<close>

theorem calculateVisibleRange64_formula:
  "(0 \<le> a \<and> a < 2 ^ 51 \<and> 0 \<le> v \<and> v < 2 ^ 51 \<and> 0 < h \<and> h < 2 ^ 51 \<and> 0 \<le> n \<and> n < 2 ^ 51
      \<and> \<bar>ov\<bar> < 2 ^ 51 \<longrightarrow>
      calculateVisibleRange64 (of_int a) (of_int v) (of_int h) (of_int n) (Some (of_int ov))
        = Some (of_int (specStart (of_int a) (of_int h) ov),
                of_int (specEnd (of_int a) (of_int v) (of_int h) n ov))
      \<and> calculateVisibleRange64 (of_int a) (of_int v) (of_int h) (of_int n) None
        = Some (of_int (specStart (of_int a) (of_int h) 5),
                of_int (specEnd (of_int a) (of_int v) (of_int h) n 5)))
   \<and> calculateVisibleRange64 200 100 20 200 (Some 5) = Some (5, 20)"
proof -
  have default: "calculateVisibleRange64 x y z w None = calculateVisibleRange64 x y z w (Some 5)"
    for x y z w
    by (simp add: calculateVisibleRange64_def)
  have five: "\<bar>5 :: int\<bar> < 2 ^ 51" by simp
  have scenario: "calculateVisibleRange64 200 100 20 200 (Some 5) = Some (5, 20)"
    using calculateVisibleRange64_integer_arguments [of 200 100 20 200 5]
    by (simp add: specStart_def specEnd_def)
  show ?thesis
    using calculateVisibleRange64_integer_arguments [of a v h n ov]
      calculateVisibleRange64_integer_arguments [of a v h n 5] five scenario
    by (simp add: default)
qed

theorem calculateVisibleRange64_formula_witness:
  "(0::int) \<le> 200 \<and> (200::int) < 2 ^ 51 \<and> (0::int) \<le> 100 \<and> (100::int) < 2 ^ 51
   \<and> (0::int) < 20 \<and> (20::int) < 2 ^ 51 \<and> \<bar>5 :: int\<bar> < 2 ^ 51
   \<and> specStart 200 20 5 = 5 \<and> specEnd 200 100 20 200 5 = 20
   \<and> calculateVisibleRange64 200 100 20 200 None = Some (5, 20)"
  using calculateVisibleRange64_formula [of 200 100 20 200 5]
  by (simp add: specStart_def specEnd_def)

subsection \<open>The bounds of the range\<close>



text \<open>
  The bounds of the range hold in double precision as well: whenever the function returns
  finite indices for a row count below \<open>2 ^ 53\<close>, the start index is at least 0 and the end
  index below the row count.
\<close>

lemma calculateVisibleRange64_bounds:
  assumes "calculateVisibleRange64 scrollTop containerHeight itemHeight (of_int n) overscan
      = Some (first, final)"
    and "0 \<le> n" and "n < 2 ^ 53"
  shows "0 \<le> first \<and> final < of_int n"
proof -
  have "minus64 (of_int n) 1 = Some (of_int (n - 1))"
    using assms(2,3) minus64_integers [of n 1] by simp
  with assms(1) show ?thesis
    by (auto simp: calculateVisibleRange64_def Let_def split: option.splits)
qed

section \<open>Filtering\<close>

lemma keepLoan_iff:
  "keepLoan f l \<longleftrightarrow>
     (search f = [] \<or> includes' (toLowerCase (borrowerName l)) (toLowerCase (search f)))
     \<and> (statusFilter f = [] \<or> statusFilter f = ''All'' \<or> statusText (status l) = statusFilter f)
     \<and> (case minAmount f of None \<Rightarrow> True | Some m \<Rightarrow> m \<le> amount l)
     \<and> (case maxAmount f of None \<Rightarrow> True | Some m \<Rightarrow> amount l \<le> m)
     \<and> (case startDate f of None \<Rightarrow> True | Some d \<Rightarrow> d = [] \<or> d \<le> closeDate l)
     \<and> (case endDate f of None \<Rightarrow> True | Some d \<Rightarrow> d = [] \<or> closeDate l \<le> d)"
  unfolding keepLoan_def
  by (cases "minAmount f"; cases "maxAmount f"; cases "startDate f"; cases "endDate f")
     (simp_all add: not_less not_le)

lemma keepLoan_initial: "keepLoan initialFilterState l"
  by (simp add: keepLoan_iff initialFilterState_def)

lemma filterLoans_initial: "filterLoans loans initialFilterState = loans"
  by (simp add: filterLoans_def keepLoan_initial)

lemma keepLoan_addConstraint:
  assumes "strengthens k c" and "keepLoan (addConstraint k c) loan"
  shows "keepLoan c loan"
proof (cases k)
  case (SearchTerm t)
  with assms show ?thesis by (simp add: keepLoan_iff)
next
  case (StatusIs st)
  with assms show ?thesis by (auto simp: keepLoan_iff)
next
  case (MinAmount m)
  with assms show ?thesis by (cases "minAmount c") (simp_all add: keepLoan_iff)
next
  case (MaxAmount m)
  with assms show ?thesis by (cases "maxAmount c") (simp_all add: keepLoan_iff)
next
  case (StartDate d)
  show ?thesis
  proof (cases "startDate c")
    case None
    with assms StartDate show ?thesis by (simp add: keepLoan_iff)
  next
    case (Some d0)
    with assms StartDate have le: "d0 \<le> d" and keep: "d = [] \<or> d \<le> closeDate loan"
      by (simp_all add: keepLoan_iff)
    from le keep have "d0 = [] \<or> d0 \<le> closeDate loan"
      by (metis order_trans le_Nil)
    with assms StartDate Some show ?thesis by (simp add: keepLoan_iff)
  qed
next
  case (EndDate d)
  show ?thesis
  proof (cases "endDate c")
    case None
    with assms EndDate show ?thesis by (simp add: keepLoan_iff)
  next
    case (Some d0)
    with assms EndDate have pre: "d0 = [] \<or> (d \<noteq> [] \<and> d \<le> d0)"
      and keep: "d = [] \<or> closeDate loan \<le> d"
      by (simp_all add: keepLoan_iff)
    from pre keep have "d0 = [] \<or> closeDate loan \<le> d0"
      by (metis order_trans)
    with assms EndDate Some show ?thesis by (simp add: keepLoan_iff)
  qed
qed

lemma length_filter_mono:
  "(\<And>x. P x \<Longrightarrow> Q x) \<Longrightarrow> length (filter P xs) \<le> length (filter Q xs)"
  by (induction xs) auto

lemma keepLoan_All:
  "keepLoan (c\<lparr>statusFilter := ''All''\<rparr>) loan = keepLoan (c\<lparr>statusFilter := []\<rparr>) loan"
  by (simp add: keepLoan_def)

text \<open>
  C8. For every dataset and all criteria \<open>c\<close>: adding one more constraint to \<open>c\<close> (a
  status or a search term where \<open>c\<close> has none, an amount or date bound where \<open>c\<close> has
  none, or a tighter bound than the one \<open>c\<close> has) never increases the number of loans
  that \<open>filterLoans\<close> returns; and filtering with the status \<open>All\<close> returns the same loans
  as the same criteria with no status.
\<close>

theorem filterLoans_monotone:
  "(strengthens k c \<longrightarrow>
      length (filterLoans loans (addConstraint k c)) \<le> length (filterLoans loans c))
   \<and> filterLoans loans (c\<lparr>statusFilter := ''All''\<rparr>) = filterLoans loans (c\<lparr>statusFilter := []\<rparr>)"
proof -
  have "length (filterLoans loans (addConstraint k c)) \<le> length (filterLoans loans c)"
    if "strengthens k c"
    unfolding filterLoans_def
    by (rule length_filter_mono) (rule keepLoan_addConstraint [OF that])
  moreover have "filterLoans loans (c\<lparr>statusFilter := ''All''\<rparr>)
      = filterLoans loans (c\<lparr>statusFilter := []\<rparr>)"
    unfolding filterLoans_def by (rule filter_cong) (simp_all add: keepLoan_All)
  ultimately show ?thesis by blast
qed

theorem filterLoans_monotone_witness:
  "strengthens (StatusIs ''Approved'') initialFilterState
   \<and> filterLoans [loan1, loan2] (addConstraint (StatusIs ''Approved'') initialFilterState) = [loan1]
   \<and> filterLoans [loan1, loan2] initialFilterState = [loan1, loan2]
   \<and> length (filterLoans [loan1, loan2] (addConstraint (StatusIs ''Approved'') initialFilterState))
       \<le> length (filterLoans [loan1, loan2] initialFilterState)"
proof -
  have pre: "strengthens (StatusIs ''Approved'') initialFilterState"
    by (simp add: initialFilterState_def)
  with filterLoans_monotone [of "StatusIs ''Approved''" initialFilterState "[loan1, loan2]"]
  have "length (filterLoans [loan1, loan2] (addConstraint (StatusIs ''Approved'') initialFilterState))
       \<le> length (filterLoans [loan1, loan2] initialFilterState)"
    by blast
  moreover have
    "filterLoans [loan1, loan2] (addConstraint (StatusIs ''Approved'') initialFilterState) = [loan1]"
    "filterLoans [loan1, loan2] initialFilterState = [loan1, loan2]"
    by (simp_all add: filterLoans_def keepLoan_def initialFilterState_def loan1_def loan2_def)
  ultimately show ?thesis using pre by blast
qed

section \<open>The query and its cache\<close>

lemma map_of_cacheSet: "map_of (cacheSet c k v) k = Some v"
  by (induction c) auto

lemma cacheSet_new: "map_of c k = None \<Longrightarrow> cacheSet c k v = c @ [(k, v)]"
  by (induction c) (auto split: if_splits)

lemma getter_hit:
  "map_of (resultCache s) (currentKey s) = Some v \<Longrightarrow>
   filteredAndSortedLoans_getter s = (v, s\<lparr>computedValue := Some (v, False)\<rparr>)"
  by (simp add: filteredAndSortedLoans_getter_def currentKey_def)

lemma getter_miss:
  assumes "map_of (resultCache s) (currentKey s) = None"
  shows "filteredAndSortedLoans_getter s =
     (uncachedView s,
      s\<lparr>resultCache := (if 100 < length (resultCache s) then [] else resultCache s)
            @ [(currentKey s, uncachedView s)],
        computedValue := Some (uncachedView s, True)\<rparr>)"
proof -
  have "map_of (if 100 < length (resultCache s) then [] else resultCache s) (currentKey s) = None"
    using assms by simp
  then show ?thesis
    using assms
    by (simp add: filteredAndSortedLoans_getter_def currentKey_def [symmetric] uncachedView_def
        Let_def cacheSet_new del: map_of_eq_None_iff)
qed

lemma read_kept: "keptValue s = Some v \<Longrightarrow> filteredAndSortedLoans s = (v, s)"
  by (auto simp: filteredAndSortedLoans_def keptValue_def split: option.splits)

lemma read_run: "keptValue s = None \<Longrightarrow> filteredAndSortedLoans s = filteredAndSortedLoans_getter s"
  by (simp add: filteredAndSortedLoans_def keptValue_def)

lemma getter_fields:
  "allLoans (snd (filteredAndSortedLoans_getter s)) = allLoans s"
  "loadedLoans (snd (filteredAndSortedLoans_getter s)) = loadedLoans s"
  "isLoading (snd (filteredAndSortedLoans_getter s)) = isLoading s"
  "error (snd (filteredAndSortedLoans_getter s)) = error s"
  "sortState (snd (filteredAndSortedLoans_getter s)) = sortState s"
  "filterState (snd (filteredAndSortedLoans_getter s)) = filterState s"
  "paginationState (snd (filteredAndSortedLoans_getter s)) = paginationState s"
  by (simp_all add: filteredAndSortedLoans_getter_def Let_def split: option.splits)

lemma getter_kept:
  "keptValue (snd (filteredAndSortedLoans_getter s)) = Some (fst (filteredAndSortedLoans_getter s))"
  by (auto simp: filteredAndSortedLoans_getter_def keptValue_def Let_def split: option.splits)

lemma query_fields:
  "allLoans (snd (filteredAndSortedLoans s)) = allLoans s"
  "loadedLoans (snd (filteredAndSortedLoans s)) = loadedLoans s"
  "isLoading (snd (filteredAndSortedLoans s)) = isLoading s"
  "error (snd (filteredAndSortedLoans s)) = error s"
  "sortState (snd (filteredAndSortedLoans s)) = sortState s"
  "filterState (snd (filteredAndSortedLoans s)) = filterState s"
  "paginationState (snd (filteredAndSortedLoans s)) = paginationState s"
  by (cases "computedValue s"; simp add: filteredAndSortedLoans_def getter_fields split_beta)+

lemma currentKey_query: "currentKey (snd (filteredAndSortedLoans s)) = currentKey s"
  by (simp add: currentKey_def query_fields)

lemma query_kept:
  "keptValue (snd (filteredAndSortedLoans s)) = Some (fst (filteredAndSortedLoans s))"
proof (cases "keptValue s")
  case None
  then show ?thesis by (simp add: read_run getter_kept)
next
  case (Some v)
  then show ?thesis by (simp add: read_kept)
qed

lemma kept_update:
  "keptValue (s\<lparr>loadedLoans := l, paginationState := p\<rparr>) = keptValue s"
  by (simp add: keptValue_def)

subsection \<open>The actions keep at most one entry\<close>

lemma oneEntry_cleared [simp]:
  "oneEntry (s\<lparr>resultCache := []\<rparr>)"
  by (simp add: oneEntry_def)

lemma oneEntry_other_fields [simp]:
  "oneEntry (s\<lparr>loadedLoans := l\<rparr>) = oneEntry s"
  "oneEntry (s\<lparr>paginationState := p\<rparr>) = oneEntry s"
  "oneEntry (s\<lparr>allLoans := d\<rparr>) = oneEntry s"
  "oneEntry (s\<lparr>isLoading := b\<rparr>) = oneEntry s"
  "oneEntry (s\<lparr>error := e\<rparr>) = oneEntry s"
  "oneEntry (s\<lparr>computedValue := c\<rparr>) = oneEntry s"
  by (simp_all add: oneEntry_def currentKey_def)

lemma oneEntry_assignAllLoans [simp]: "oneEntry (assignAllLoans d s) = oneEntry s"
  by (simp add: assignAllLoans_def)

lemma oneEntry_new_criteria [simp]:
  "oneEntry (assignSortState srt (s\<lparr>resultCache := []\<rparr>))"
  "oneEntry (assignFilterState flt (s\<lparr>resultCache := []\<rparr>))"
  by (simp_all add: oneEntry_def assignSortState_def assignFilterState_def)

lemma oneEntry_getter [simp]:
  "oneEntry s \<Longrightarrow> oneEntry (snd (filteredAndSortedLoans_getter s))"
proof (cases "resultCache s")
  case Nil
  then show ?thesis
    by (simp add: oneEntry_def filteredAndSortedLoans_getter_def currentKey_def Let_def)
next
  case (Cons p ps)
  assume "oneEntry s"
  with Cons have "ps = []" and "fst p = currentKey s"
    by (simp_all add: oneEntry_def)
  with Cons have "map_of (resultCache s) (currentKey s) = Some (snd p)"
    by (cases p) simp
  then have "filteredAndSortedLoans_getter s = (snd p, s\<lparr>computedValue := Some (snd p, False)\<rparr>)"
    by (rule getter_hit)
  with \<open>oneEntry s\<close> show ?thesis by simp
qed

lemma oneEntry_query [simp]:
  "oneEntry s \<Longrightarrow> oneEntry (snd (filteredAndSortedLoans s))"
  by (cases "computedValue s") (auto simp: filteredAndSortedLoans_def)

lemma oneEntry_loadNextPage [simp]: "oneEntry s \<Longrightarrow> oneEntry (loadNextPage s)"
  by (simp add: loadNextPage_def Let_def split_beta)

lemma oneEntry_resetPagination [simp]: "oneEntry s \<Longrightarrow> oneEntry (resetPagination s)"
  by (simp add: resetPagination_def)

lemma oneEntry_setPageSize [simp]: "oneEntry (setPageSize n s)"
  by (simp add: setPageSize_def Let_def split_beta)

lemma oneEntry_setSortState [simp]: "oneEntry (setSortState c d s)"
  by (simp add: setSortState_def)

lemma oneEntry_setFilter [simp]: "oneEntry (setFilter p s)"
  by (simp add: setFilter_def)

lemma oneEntry_loadInitialData:
  "oneEntry s \<Longrightarrow> snd (loadInitialData answer s) = Inr s' \<Longrightarrow> oneEntry s'"
  by (auto simp: loadInitialData_def loadInitialData_finish_def loadInitialData_try_def
      loadInitialData_start_def Let_def split: fetched.splits body.splits if_splits)

lemma oneEntry_perform: "oneEntry s \<Longrightarrow> oneEntry (perform a s)"
  by (cases a) (auto simp: clearCache_def dest: oneEntry_loadInitialData split: sum.splits)

lemma oneEntry_performAll: "oneEntry s \<Longrightarrow> oneEntry (performAll acts s)"
  unfolding performAll_def by (induction acts arbitrary: s) (simp_all add: oneEntry_perform)

lemma oneEntry_length: "oneEntry s \<Longrightarrow> length (resultCache s) \<le> 1"
  by (simp add: oneEntry_def)

lemma oneEntry_reached: "oneEntry (performAll acts initialStore)"
proof -
  have "oneEntry initialStore" by (simp add: oneEntry_def initialStore_def)
  then show ?thesis by (rule oneEntry_performAll)
qed

subsection \<open>The size of the cache\<close>


subsection \<open>A stale view\<close>

text \<open>
  While the data are not replaced, the cache and the kept value stay fresh and the view
  is the uncached computation: every action but \<open>loadInitialData\<close> keeps them fresh.
\<close>

lemma cacheFresh_cleared [simp]:
  "cacheFresh (s\<lparr>resultCache := []\<rparr>) = (keptValue s = None \<or> keptValue s = Some (uncachedView s))"
  "cacheFresh (assignSortState srt (s\<lparr>resultCache := []\<rparr>))"
  "cacheFresh (assignFilterState flt (s\<lparr>resultCache := []\<rparr>))"
  by (simp_all add: cacheFresh_def keptValue_def uncachedView_def assignSortState_def
      assignFilterState_def)

lemma cacheFresh_other_fields [simp]:
  "cacheFresh (s\<lparr>loadedLoans := l\<rparr>) = cacheFresh s"
  "cacheFresh (s\<lparr>paginationState := p\<rparr>) = cacheFresh s"
  "cacheFresh (s\<lparr>isLoading := b\<rparr>) = cacheFresh s"
  "cacheFresh (s\<lparr>error := e\<rparr>) = cacheFresh s"
  by (simp_all add: cacheFresh_def currentKey_def uncachedView_def keptValue_def)

lemma cacheFresh_hit:
  assumes "cacheFresh s" and "map_of (resultCache s) (currentKey s) = Some v"
  shows "v = uncachedView s"
proof -
  from assms(2) have "(currentKey s, v) \<in> set (resultCache s)" by (rule map_of_SomeD)
  with assms(1) show ?thesis by (auto simp: cacheFresh_def list_all_iff)
qed

lemma cacheFresh_getter:
  assumes "cacheFresh s"
  shows "fst (filteredAndSortedLoans_getter s) = uncachedView s"
    and "cacheFresh (snd (filteredAndSortedLoans_getter s))"
proof -
  show "fst (filteredAndSortedLoans_getter s) = uncachedView s"
  proof (cases "map_of (resultCache s) (currentKey s)")
    case None
    then show ?thesis by (simp add: getter_miss del: map_of_eq_None_iff)
  next
    case (Some v)
    with assms show ?thesis by (simp add: getter_hit cacheFresh_hit)
  qed
  show "cacheFresh (snd (filteredAndSortedLoans_getter s))"
  proof (cases "map_of (resultCache s) (currentKey s)")
    case None
    with assms show ?thesis
      by (simp add: getter_miss cacheFresh_def currentKey_def uncachedView_def keptValue_def
          del: map_of_eq_None_iff)
  next
    case (Some v)
    with assms have "v = uncachedView s" by (simp add: cacheFresh_hit)
    with assms Some show ?thesis
      by (simp add: getter_hit cacheFresh_def currentKey_def uncachedView_def keptValue_def)
  qed
qed

lemma cacheFresh_query:
  assumes "cacheFresh s"
  shows "fst (filteredAndSortedLoans s) = uncachedView s"
    and "cacheFresh (snd (filteredAndSortedLoans s))"
proof -
  show "fst (filteredAndSortedLoans s) = uncachedView s"
  proof (cases "keptValue s")
    case None
    with assms show ?thesis by (simp add: read_run cacheFresh_getter)
  next
    case (Some v)
    with assms show ?thesis by (auto simp: read_kept cacheFresh_def)
  qed
  show "cacheFresh (snd (filteredAndSortedLoans s))"
  proof (cases "keptValue s")
    case None
    with assms show ?thesis by (simp add: read_run cacheFresh_getter)
  next
    case (Some v)
    with assms show ?thesis by (simp add: read_kept)
  qed
qed

lemma cacheFresh_loadNextPage: "cacheFresh s \<Longrightarrow> cacheFresh (loadNextPage s)"
  by (simp add: loadNextPage_def Let_def split_beta cacheFresh_query)

lemma cacheFresh_resetPagination: "cacheFresh s \<Longrightarrow> cacheFresh (resetPagination s)"
  by (simp add: resetPagination_def cacheFresh_loadNextPage)

lemma cacheFresh_setPageSize: "cacheFresh s \<Longrightarrow> cacheFresh (setPageSize n s)"
proof -
  assume fresh: "cacheFresh s"
  then have "cacheFresh (s\<lparr>resultCache := []\<rparr>)"
    by (simp add: cacheFresh_def keptValue_def uncachedView_def)
  then show ?thesis
    by (simp add: setPageSize_def Let_def split_beta cacheFresh_query del: cacheFresh_cleared)
qed

lemma cacheFresh_setSortState: "cacheFresh (setSortState c d s)"
  by (simp add: setSortState_def cacheFresh_resetPagination)

lemma cacheFresh_setFilter: "cacheFresh (setFilter p s)"
  by (simp add: setFilter_def cacheFresh_resetPagination)

lemma cacheFresh_clearCache: "cacheFresh s \<Longrightarrow> cacheFresh (clearCache s)"
  by (simp add: clearCache_def cacheFresh_def keptValue_def uncachedView_def)

lemma cacheFresh_perform: "keepsData a \<Longrightarrow> cacheFresh s \<Longrightarrow> cacheFresh (perform a s)"
  by (cases a)
     (simp_all add: cacheFresh_loadNextPage cacheFresh_resetPagination cacheFresh_setPageSize
        cacheFresh_setSortState cacheFresh_setFilter cacheFresh_clearCache cacheFresh_query)

lemma cacheFresh_performAll:
  "list_all keepsData acts \<Longrightarrow> cacheFresh s \<Longrightarrow> cacheFresh (performAll acts s)"
  unfolding performAll_def
  by (induction acts arbitrary: s) (simp_all add: cacheFresh_perform)

lemma currentView_uncached:
  assumes "cacheFresh s" and "list_all keepsData acts"
  shows "currentView (performAll acts s) = uncachedView (performAll acts s)"
proof -
  from assms have "cacheFresh (performAll acts s)" by (simp add: cacheFresh_performAll)
  then show ?thesis unfolding currentView_def by (rule cacheFresh_query)
qed

text \<open>
  C1 fails when the data are loaded after a query on the empty data. \<open>setPageSize\<close> runs
  the query on the still empty data and stores the empty result under the key of the
  initial criteria; \<open>loadInitialData\<close> then replaces the data and clears nothing, so the
  next query hits that entry: the view is empty while the uncached computation on the
  current data gives both loans, and no row is loaded.
\<close>

theorem stale_view_after_loadInitialData:
  "allLoans afterSizeThenLoad = [loan1, loan2]
   \<and> uncachedView afterSizeThenLoad = [loan1, loan2]
   \<and> currentView afterSizeThenLoad = []
   \<and> loadedLoans afterSizeThenLoad = []
   \<and> \<not> hasMoreData afterSizeThenLoad"
  by code_simp

section \<open>Pagination\<close>

lemma loadNextPage_kept:
  assumes "keptValue s = Some view"
  shows "loadNextPage s =
     (let size = pageSize (paginationState s);
          page = currentPage (paginationState s);
          nextPageData = slice view (page * size) (page * size + size);
          loaded = (if page = 0 then nextPageData else loadedLoans s @ nextPageData)
      in if nextPageData = [] then s
         else s\<lparr>loadedLoans := loaded,
                paginationState := \<lparr>pageSize = size, currentPage = page + 1,
                  totalPages = ceilDiv (int (length view)) size,
                  loadedRowsCount = int (length loaded)\<rparr>\<rparr>)"
proof -
  have q: "filteredAndSortedLoans s = (view, s)"
    using assms by (rule read_kept)
  have q': "filteredAndSortedLoans (s\<lparr>loadedLoans := l, paginationState := p\<rparr>)
      = (view, s\<lparr>loadedLoans := l, paginationState := p\<rparr>)" for l p
    by (rule read_kept) (simp add: kept_update assms)
  show ?thesis
    by (simp add: loadNextPage_def q q' Let_def)
qed

lemma loadNextPage_query:
  "loadNextPage s = loadNextPage (snd (filteredAndSortedLoans s))"
proof -
  let ?s1 = "snd (filteredAndSortedLoans s)"
  have "filteredAndSortedLoans ?s1 = (fst (filteredAndSortedLoans s), ?s1)"
    by (rule read_kept) (rule query_kept)
  then show ?thesis
    by (simp add: loadNextPage_def [of s] loadNextPage_def [of ?s1] query_fields
        split_beta Let_def)
qed

lemma slice_same: "slice xs k (k + 0) = []"
  by (simp add: slice_def Let_def)

lemma slice_nonneg:
  "0 \<le> a \<Longrightarrow> 0 \<le> b \<Longrightarrow> slice xs a b = take (nat b - nat a) (drop (nat a) xs)"
  by (auto simp: slice_def Let_def min_def nat_diff_distrib')

lemma currentView_sixtyStore: "currentView sixtyStore = sixtyLoans"
  by (simp add: currentView_def filteredAndSortedLoans_def filteredAndSortedLoans_getter_def
      sixtyStore_def initialStore_def getCacheKey_def sortLoans_def filterLoans_initial)

text \<open>
  C4. With a page size of 25, the page counter at 0 and a view of exactly 60 rows, the
  first \<open>loadNextPage\<close> loads 25 rows, the second 50, the third all 60 (the last page
  adds the 10 remaining rows), with 3 pages in total, and a fourth call changes nothing
  in the store. In general \<open>loadNextPage\<close> takes effect only when the next page of the
  current view is not empty: then it replaces the loaded rows by that page when the
  page counter is 0 and appends the page otherwise, increments the page counter, and
  sets the total to \<open>ceil(filteredCount / pageSize)\<close>; when the next page is empty, it
  leaves the store as the read of the view leaves it, which changes no field but the
  cache and the kept value.
\<close>

theorem loadNextPage_contract:
  "(pageSize (paginationState s) = 25 \<and> currentPage (paginationState s) = 0
      \<and> length (currentView s) = 60 \<longrightarrow>
      loadedRowsCount (paginationState (loadNextPage s)) = 25
      \<and> loadedLoans (loadNextPage s) = take 25 (currentView s)
      \<and> loadedRowsCount (paginationState (loadNextPage (loadNextPage s))) = 50
      \<and> loadedLoans (loadNextPage (loadNextPage s)) = take 50 (currentView s)
      \<and> loadedRowsCount (paginationState (loadNextPage (loadNextPage (loadNextPage s)))) = 60
      \<and> loadedLoans (loadNextPage (loadNextPage (loadNextPage s))) = currentView s
      \<and> currentPage (paginationState (loadNextPage (loadNextPage (loadNextPage s)))) = 3
      \<and> totalPages (paginationState (loadNextPage (loadNextPage (loadNextPage s)))) = Finite 3
      \<and> loadNextPage (loadNextPage (loadNextPage (loadNextPage s)))
          = loadNextPage (loadNextPage (loadNextPage s)))
   \<and> loadNextPage t =
       (let base = snd (filteredAndSortedLoans t);
            view = currentView t;
            size = pageSize (paginationState t);
            page = currentPage (paginationState t);
            nextPageData = slice view (page * size) (page * size + size);
            loaded = (if page = 0 then nextPageData else loadedLoans t @ nextPageData)
        in if nextPageData = [] then base
           else base\<lparr>loadedLoans := loaded,
                  paginationState := \<lparr>pageSize = size, currentPage = page + 1,
                    totalPages = Finite \<lceil>real (length view) / real_of_int size\<rceil>,
                    loadedRowsCount = int (length loaded)\<rparr>\<rparr>)
   \<and> allLoans (snd (filteredAndSortedLoans t)) = allLoans t
   \<and> loadedLoans (snd (filteredAndSortedLoans t)) = loadedLoans t
   \<and> isLoading (snd (filteredAndSortedLoans t)) = isLoading t
   \<and> error (snd (filteredAndSortedLoans t)) = error t
   \<and> sortState (snd (filteredAndSortedLoans t)) = sortState t
   \<and> filterState (snd (filteredAndSortedLoans t)) = filterState t
   \<and> paginationState (snd (filteredAndSortedLoans t)) = paginationState t"
proof -
  have general: "loadNextPage t =
       (let base = snd (filteredAndSortedLoans t);
            view = currentView t;
            size = pageSize (paginationState t);
            page = currentPage (paginationState t);
            nextPageData = slice view (page * size) (page * size + size);
            loaded = (if page = 0 then nextPageData else loadedLoans t @ nextPageData)
        in if nextPageData = [] then base
           else base\<lparr>loadedLoans := loaded,
                  paginationState := \<lparr>pageSize = size, currentPage = page + 1,
                    totalPages = Finite \<lceil>real (length view) / real_of_int size\<rceil>,
                    loadedRowsCount = int (length loaded)\<rparr>\<rparr>)"
  proof -
    let ?base = "snd (filteredAndSortedLoans t)"
    have hit: "keptValue ?base = Some (currentView t)"
      by (simp add: query_kept currentView_def)
    have zero: "pageSize (paginationState t) = 0 \<Longrightarrow>
        slice (currentView t) (currentPage (paginationState t) * pageSize (paginationState t))
          (currentPage (paginationState t) * pageSize (paginationState t)
            + pageSize (paginationState t)) = []"
      using slice_same [of "currentView t" 0] by simp
    show ?thesis
      unfolding loadNextPage_query [of t] loadNextPage_kept [OF hit]
      using zero by (auto simp: Let_def query_fields ceilDiv_def)
  qed
  have scenario:
     "loadedRowsCount (paginationState (loadNextPage s)) = 25
      \<and> loadedLoans (loadNextPage s) = take 25 (currentView s)
      \<and> loadedRowsCount (paginationState (loadNextPage (loadNextPage s))) = 50
      \<and> loadedLoans (loadNextPage (loadNextPage s)) = take 50 (currentView s)
      \<and> loadedRowsCount (paginationState (loadNextPage (loadNextPage (loadNextPage s)))) = 60
      \<and> loadedLoans (loadNextPage (loadNextPage (loadNextPage s))) = currentView s
      \<and> currentPage (paginationState (loadNextPage (loadNextPage (loadNextPage s)))) = 3
      \<and> totalPages (paginationState (loadNextPage (loadNextPage (loadNextPage s)))) = Finite 3
      \<and> loadNextPage (loadNextPage (loadNextPage (loadNextPage s)))
          = loadNextPage (loadNextPage (loadNextPage s))"
    if size: "pageSize (paginationState s) = 25" and page: "currentPage (paginationState s) = 0"
      and len: "length (currentView s) = 60"
  proof -
    define view where "view = currentView s"
    define base where "base = snd (filteredAndSortedLoans s)"
    define s1 where "s1 = base\<lparr>loadedLoans := take 25 view,
      paginationState := \<lparr>pageSize = 25, currentPage = 1, totalPages = Finite 3,
        loadedRowsCount = 25\<rparr>\<rparr>"
    define s2 where "s2 = s1\<lparr>loadedLoans := take 50 view,
      paginationState := \<lparr>pageSize = 25, currentPage = 2, totalPages = Finite 3,
        loadedRowsCount = 50\<rparr>\<rparr>"
    define s3 where "s3 = s2\<lparr>loadedLoans := view,
      paginationState := \<lparr>pageSize = 25, currentPage = 3, totalPages = Finite 3,
        loadedRowsCount = 60\<rparr>\<rparr>"
    have len': "length view = 60" using len by (simp add: view_def)
    have hit0: "keptValue base = Some view"
      by (simp add: base_def view_def query_kept currentView_def)
    have hit1: "keptValue s1 = Some view"
      unfolding s1_def using hit0 by (simp only: kept_update)
    have hit2: "keptValue s2 = Some view"
      unfolding s2_def using hit1 by (simp only: kept_update)
    have hit3: "keptValue s3 = Some view"
      unfolding s3_def using hit2 by (simp only: kept_update)
    have p0: "slice view 0 25 = take 25 view"
      by (simp add: slice_nonneg)
    have p1: "slice view 25 50 = take 25 (drop 25 view)"
      by (simp add: slice_nonneg)
    have p2: "slice view 50 75 = drop 50 view"
      by (simp add: slice_nonneg len')
    have p3: "slice view 75 100 = []"
      by (simp add: slice_nonneg len')
    have j1: "take 25 view @ take 25 (drop 25 view) = take 50 view"
      using take_add [of 25 25 view] by simp
    have ne0: "take 25 view \<noteq> []" and ne1: "take 25 (drop 25 view) \<noteq> []"
      and ne2: "drop 50 view \<noteq> []"
      using len' by auto
    have l1: "loadNextPage s = s1"
      unfolding loadNextPage_query [of s] base_def [symmetric] loadNextPage_kept [OF hit0]
      using ne0 len' size page
      by (simp add: base_def query_fields p0 s1_def ceilDiv_def)
    have l2: "loadNextPage s1 = s2"
      unfolding loadNextPage_kept [OF hit1]
      using ne1 len' by (simp add: s1_def p1 j1 s2_def ceilDiv_def)
    have l3: "loadNextPage s2 = s3"
      unfolding loadNextPage_kept [OF hit2]
      using ne2 len' by (simp add: s2_def s1_def p2 s3_def ceilDiv_def)
    have l4: "loadNextPage s3 = s3"
      unfolding loadNextPage_kept [OF hit3]
      by (simp add: s3_def s2_def s1_def p3)
    show ?thesis
      unfolding l1 l2 l3 l4
      by (simp add: s1_def s2_def s3_def view_def)
  qed
  from general scenario show ?thesis
    by (simp only: query_fields) blast
qed

theorem loadNextPage_contract_witness:
  "pageSize (paginationState sixtyStore) = 25 \<and> currentPage (paginationState sixtyStore) = 0
   \<and> length (currentView sixtyStore) = 60
   \<and> loadedRowsCount (paginationState (loadNextPage sixtyStore)) = 25
   \<and> loadedRowsCount (paginationState (loadNextPage (loadNextPage sixtyStore))) = 50
   \<and> loadedRowsCount (paginationState (loadNextPage (loadNextPage (loadNextPage sixtyStore)))) = 60
   \<and> loadedLoans (loadNextPage (loadNextPage (loadNextPage sixtyStore))) = sixtyLoans
   \<and> loadNextPage (loadNextPage (loadNextPage (loadNextPage sixtyStore)))
       = loadNextPage (loadNextPage (loadNextPage sixtyStore))"
proof -
  have size: "pageSize (paginationState sixtyStore) = 25"
    and page: "currentPage (paginationState sixtyStore) = 0"
    by (simp_all add: sixtyStore_def initialStore_def)
  have len: "length (currentView sixtyStore) = 60"
    by (simp add: currentView_sixtyStore sixtyLoans_def)
  from loadNextPage_contract [of sixtyStore sixtyStore] size page len
  have "loadedRowsCount (paginationState (loadNextPage sixtyStore)) = 25
      \<and> loadedRowsCount (paginationState (loadNextPage (loadNextPage sixtyStore))) = 50
      \<and> loadedRowsCount (paginationState (loadNextPage (loadNextPage (loadNextPage sixtyStore)))) = 60
      \<and> loadedLoans (loadNextPage (loadNextPage (loadNextPage sixtyStore))) = currentView sixtyStore
      \<and> loadNextPage (loadNextPage (loadNextPage (loadNextPage sixtyStore)))
          = loadNextPage (loadNextPage (loadNextPage sixtyStore))"
    by blast
  with size page len show ?thesis
    by (simp only: currentView_sixtyStore)
qed

text \<open>
  C3 fails when a change of the criteria leaves no row in the view. After the load of
  one approved loan, the filter for the status \<open>Rejected\<close> empties the view;
  \<open>resetPagination\<close> sets the counters to 0 and \<open>loadNextPage\<close> finds no page, so it
  leaves the loaded rows as they were: the buffer still holds the loan of the former
  view, which is not the first 0 rows of the current view.
\<close>

theorem loaded_rows_not_prefix_after_empty_filter:
  "currentView afterEmptyFilter = []
   \<and> loadedLoans afterEmptyFilter = [loan1]
   \<and> loadedLoans afterEmptyFilter
       \<noteq> take (nat (loadedRowsCount (paginationState afterEmptyFilter)))
           (currentView afterEmptyFilter)"
  by code_simp

text \<open>
  C10 fails in the same state: the loaded-row count is 0 while the loaded rows that the
  store exposes are one row long.
\<close>

theorem loadedRowsCount_disagrees_after_empty_filter:
  "loadedRowsCount (paginationState afterEmptyFilter) = 0
   \<and> int (length (loadedLoans afterEmptyFilter)) = 1"
  by code_simp

section \<open>Loading the data\<close>

lemma try_failed:
  "loadFailed answer \<Longrightarrow>
   \<exists>err. loadInitialData_try answer t = Inl (err, t) \<and> caughtMessage err = failureText answer"
  by (cases answer rule: loadFailed.cases) (auto simp: loadInitialData_try_def)

lemma try_loaded:
  "\<not> loadFailed answer \<Longrightarrow>
   \<exists>data. loadInitialData_try answer t = Inr (loadNextPage (assignAllLoans data t))"
  by (cases answer rule: loadFailed.cases) (auto simp: loadInitialData_try_def)

lemma loadNextPage_error: "error (loadNextPage s) = error s"
  by (simp add: loadNextPage_def Let_def split_beta query_fields)

lemma finish_failed:
  assumes "loadFailed answer"
  shows "loadInitialData_finish answer t
    = Inr (t\<lparr>error := Some (failureText answer), isLoading := False\<rparr>)"
proof -
  from try_failed [OF assms] obtain err where
    "loadInitialData_try answer t = Inl (err, t)" and "caughtMessage err = failureText answer"
    by blast
  then show ?thesis by (simp add: loadInitialData_finish_def)
qed

lemma finish_loaded:
  assumes "\<not> loadFailed answer"
  shows "\<exists>t'. loadInitialData_finish answer t = Inr t' \<and> \<not> isLoading t' \<and> error t' = error t"
proof -
  from try_loaded [OF assms] obtain data where
    "loadInitialData_try answer t = Inr (loadNextPage (assignAllLoans data t))"
    by blast
  then show ?thesis
    by (simp add: loadInitialData_finish_def loadNextPage_error assignAllLoans_def)
qed

text \<open>
  C9, as stated, fails for a load that follows a successful one: the failed load records
  its message and clears the loading flag, and the loaded rows still hold the loan of
  the first load.
\<close>

theorem loaded_rows_kept_after_failed_reload:
  "loadFailed (FetchFailure (ErrorObject ''Failed to fetch''))
   \<and> snd (loadInitialData (FetchFailure (ErrorObject ''Failed to fetch'')) afterFirstLoad)
       = Inr afterFailedReload
   \<and> error afterFailedReload = Some ''Failed to fetch''
   \<and> \<not> isLoading afterFailedReload
   \<and> loadedLoans afterFirstLoad = [loan1]
   \<and> loadedLoans afterFailedReload = [loan1]
   \<and> loadedLoans afterFailedReload \<noteq> []"
  by code_simp

text \<open>
  C9, amended. \<open>loadInitialData\<close> sets the loading flag (and clears the error state)
  before it waits for the answer, and on every answer (success, a response that is not
  OK, a network failure, a body that does not parse) it ends without an exception leaving
  it and with the loading flag cleared, also when other actions have changed the store
  before the answer arrives. On every failure it records a message in the error state
  (the message of the error, the status text after \<open>Failed to load data: \<close> for a
  response that is not OK, \<open>Failed to load data\<close> for a thrown value that is no error
  object) and leaves the loaded rows and the data as they were, so the loaded rows are
  empty after a failure when they were empty at the call; after a success the error
  state is empty.
\<close>

theorem loadInitialData_contract:
  "fst (loadInitialData answer s) = s\<lparr>isLoading := True, error := None\<rparr>
   \<and> isLoading (fst (loadInitialData answer s))
   \<and> (\<exists>s'. snd (loadInitialData answer s) = Inr s' \<and> \<not> isLoading s'
        \<and> (loadFailed answer \<longrightarrow>
              error s' = Some (failureText answer) \<and> loadedLoans s' = loadedLoans s
              \<and> allLoans s' = allLoans s)
        \<and> (\<not> loadFailed answer \<longrightarrow> error s' = None))
   \<and> (\<exists>t'. loadInitialData_finish answer t = Inr t' \<and> \<not> isLoading t'
        \<and> (loadFailed answer \<longrightarrow>
              error t' = Some (failureText answer) \<and> loadedLoans t' = loadedLoans t
              \<and> allLoans t' = allLoans t))
   \<and> failureText (Response False reason content) = ''Failed to load data: '' @ reason
   \<and> failureText (FetchFailure (ErrorObject msg)) = msg
   \<and> failureText (Response True reason (ParseFailure (ErrorObject msg))) = msg
   \<and> failureText (FetchFailure OtherValue) = ''Failed to load data''
   \<and> failureText (Response True reason (ParseFailure OtherValue)) = ''Failed to load data''"
proof -
  let ?pending = "s\<lparr>isLoading := True, error := None\<rparr>"
  have start: "fst (loadInitialData answer s) = ?pending"
    by (simp add: loadInitialData_def loadInitialData_start_def Let_def)
  have result: "snd (loadInitialData answer s) = loadInitialData_finish answer ?pending"
    by (simp add: loadInitialData_def loadInitialData_start_def Let_def)
  have whole: "\<exists>s'. snd (loadInitialData answer s) = Inr s' \<and> \<not> isLoading s'
        \<and> (loadFailed answer \<longrightarrow>
              error s' = Some (failureText answer) \<and> loadedLoans s' = loadedLoans s
              \<and> allLoans s' = allLoans s)
        \<and> (\<not> loadFailed answer \<longrightarrow> error s' = None)"
  proof (cases "loadFailed answer")
    case True
    then show ?thesis by (simp add: result finish_failed)
  next
    case False
    from finish_loaded [OF False, of ?pending] obtain s' where
      "loadInitialData_finish answer ?pending = Inr s'" "\<not> isLoading s'" "error s' = None"
      by auto
    with False show ?thesis by (simp add: result)
  qed
  have later: "\<exists>t'. loadInitialData_finish answer t = Inr t' \<and> \<not> isLoading t'
        \<and> (loadFailed answer \<longrightarrow>
              error t' = Some (failureText answer) \<and> loadedLoans t' = loadedLoans t
              \<and> allLoans t' = allLoans t)"
  proof (cases "loadFailed answer")
    case True
    then show ?thesis by (simp add: finish_failed)
  next
    case False
    with finish_loaded [OF False, of t] show ?thesis by auto
  qed
  from start whole later show ?thesis by simp
qed

theorem loadInitialData_contract_witness:
  "loadFailed (Response False ''Not Found'' (Parsed [loan1]))
   \<and> (\<exists>s'. snd (loadInitialData (Response False ''Not Found'' (Parsed [loan1])) initialStore)
           = Inr s'
         \<and> \<not> isLoading s' \<and> error s' = Some ''Failed to load data: Not Found''
         \<and> loadedLoans s' = [])
   \<and> \<not> loadFailed (Response True ''OK'' (Parsed [loan1]))
   \<and> error afterFailedReload = Some ''Failed to fetch''
   \<and> (\<exists>s'. snd (loadInitialData (Response True ''OK'' (Parsed [loan1])) afterFailedReload)
           = Inr s'
         \<and> \<not> isLoading s' \<and> error s' = None)"
proof -
  let ?bad = "Response False ''Not Found'' (Parsed [loan1])"
  let ?good = "Response True ''OK'' (Parsed [loan1])"
  have failed: "loadFailed ?bad" and loaded: "\<not> loadFailed ?good" by simp_all
  have empty: "loadedLoans initialStore = []" by (simp add: initialStore_def)
  have old: "error afterFailedReload = Some ''Failed to fetch''" by code_simp
  from loadInitialData_contract [of ?bad initialStore]
  obtain s' where bad: "snd (loadInitialData ?bad initialStore) = Inr s'" "\<not> isLoading s'"
    and onFailure: "loadFailed ?bad \<longrightarrow>
        error s' = Some (failureText ?bad) \<and> loadedLoans s' = loadedLoans initialStore
        \<and> allLoans s' = allLoans initialStore"
    by blast
  from onFailure failed empty
  have "error s' = Some ''Failed to load data: Not Found''" and "loadedLoans s' = []"
    by simp_all
  with bad have first: "\<exists>s'. snd (loadInitialData ?bad initialStore) = Inr s'
         \<and> \<not> isLoading s' \<and> error s' = Some ''Failed to load data: Not Found''
         \<and> loadedLoans s' = []"
    by blast
  from loadInitialData_contract [of ?good afterFailedReload]
  obtain u where good: "snd (loadInitialData ?good afterFailedReload) = Inr u" "\<not> isLoading u"
    and onSuccess: "\<not> loadFailed ?good \<longrightarrow> error u = None"
    by blast
  from onSuccess loaded have "error u = None" by blast
  with good have second: "\<exists>s'. snd (loadInitialData ?good afterFailedReload) = Inr s'
         \<and> \<not> isLoading s' \<and> error s' = None"
    by blast
  from failed first loaded old second show ?thesis by blast
qed

section \<open>Sorting\<close>

text \<open>
  The comparator is the order \<open>precedes\<close> in the ascending direction and its converse in
  the descending one, so the result of \<open>sortLoans\<close> is in that order, and sorting it
  again changes nothing.
\<close>

lemma compareLoans_asc:
  "dir \<noteq> desc \<Longrightarrow> compareLoans col dir a b \<le> 0 \<longleftrightarrow> precedes col a b"
  by (cases col) (auto simp: compareLoans_def precedes_def Let_def)

lemma compareLoans_desc:
  "compareLoans col desc a b \<le> 0 \<longleftrightarrow> precedes col b a"
  by (cases col) (auto simp: compareLoans_def precedes_def Let_def)

lemma precedes_total: "precedes col a b \<or> precedes col b a"
  by (cases col) (auto simp: precedes_def)

lemma precedes_trans: "precedes col a b \<Longrightarrow> precedes col b c \<Longrightarrow> precedes col a c"
  by (cases col) (auto simp: precedes_def)

lemma set_insertBy: "set (insertBy cmp x ys) = insert x (set ys)"
  by (induction ys) auto

lemma sorted_insertBy:
  assumes total: "\<And>a b. cmp a b \<le> 0 \<or> cmp b a \<le> 0"
    and trans: "\<And>a b c. cmp a b \<le> 0 \<Longrightarrow> cmp b c \<le> 0 \<Longrightarrow> cmp a c \<le> 0"
  shows "sorted_wrt (\<lambda>a b. cmp a b \<le> 0) ys \<Longrightarrow> sorted_wrt (\<lambda>a b. cmp a b \<le> 0) (insertBy cmp x ys)"
proof (induction ys)
  case Nil
  then show ?case by simp
next
  case (Cons y ys)
  show ?case
  proof (cases "cmp x y \<le> 0")
    case True
    with Cons.prems trans show ?thesis by auto
  next
    case False
    with total have "cmp y x \<le> 0" by blast
    with False Cons show ?thesis by (auto simp: set_insertBy)
  qed
qed

lemma sorted_sortBy:
  assumes "\<And>a b. cmp a b \<le> 0 \<or> cmp b a \<le> 0"
    and "\<And>a b c. cmp a b \<le> 0 \<Longrightarrow> cmp b c \<le> 0 \<Longrightarrow> cmp a c \<le> 0"
  shows "sorted_wrt (\<lambda>a b. cmp a b \<le> 0) (sortBy cmp xs)"
  unfolding sortBy_def
  by (induction xs) (simp_all add: sorted_insertBy [OF assms])

lemma sortBy_sorted:
  "sorted_wrt (\<lambda>a b. cmp a b \<le> 0) xs \<Longrightarrow> sortBy cmp xs = xs"
  unfolding sortBy_def
proof (induction xs)
  case Nil
  then show ?case by simp
next
  case (Cons x xs)
  then show ?case by (cases xs) auto
qed

lemma sortLoans_sorted:
  "sorted_wrt (precedes col) (sortLoans loans (Some col) asc)"
  "sorted_wrt (\<lambda>a b. precedes col b a) (sortLoans loans (Some col) desc)"
proof -
  have "sorted_wrt (\<lambda>a b. compareLoans col asc a b \<le> 0) (sortBy (compareLoans col asc) loans)"
  proof (rule sorted_sortBy)
    show "compareLoans col asc a b \<le> 0 \<or> compareLoans col asc b a \<le> 0" for a b
      using precedes_total [of col a b] by (simp add: compareLoans_asc)
    show "compareLoans col asc a b \<le> 0 \<Longrightarrow> compareLoans col asc b c \<le> 0
        \<Longrightarrow> compareLoans col asc a c \<le> 0" for a b c
      using precedes_trans [of col a b c] by (simp add: compareLoans_asc)
  qed
  then show "sorted_wrt (precedes col) (sortLoans loans (Some col) asc)"
    by (simp add: sortLoans_def compareLoans_asc)
  have "sorted_wrt (\<lambda>a b. compareLoans col desc a b \<le> 0) (sortBy (compareLoans col desc) loans)"
  proof (rule sorted_sortBy)
    show "compareLoans col desc a b \<le> 0 \<or> compareLoans col desc b a \<le> 0" for a b
      using precedes_total [of col a b] by (auto simp: compareLoans_desc)
    show "compareLoans col desc a b \<le> 0 \<Longrightarrow> compareLoans col desc b c \<le> 0
        \<Longrightarrow> compareLoans col desc a c \<le> 0" for a b c
      using precedes_trans [of col c b a] by (simp add: compareLoans_desc)
  qed
  then show "sorted_wrt (\<lambda>a b. precedes col b a) (sortLoans loans (Some col) desc)"
    by (simp add: sortLoans_def compareLoans_desc)
qed

lemma sortLoans_twice:
  "sortLoans (sortLoans loans col dir) col dir = sortLoans loans col dir"
proof (cases col)
  case None
  then show ?thesis by (simp add: sortLoans_def)
next
  case (Some c)
  show ?thesis
  proof (cases "dir = none")
    case True
    with Some show ?thesis by (simp add: sortLoans_def)
  next
    case False
    have "sorted_wrt (\<lambda>a b. compareLoans c dir a b \<le> 0) (sortBy (compareLoans c dir) loans)"
    proof (rule sorted_sortBy)
      show "compareLoans c dir a b \<le> 0 \<or> compareLoans c dir b a \<le> 0" for a b
        using precedes_total [of c a b]
        by (cases "dir = desc") (auto simp: compareLoans_asc compareLoans_desc)
      show "compareLoans c dir a b \<le> 0 \<Longrightarrow> compareLoans c dir b d \<le> 0
          \<Longrightarrow> compareLoans c dir a d \<le> 0" for a b d
        using precedes_trans [of c a b d] precedes_trans [of c d b a]
        by (cases "dir = desc") (auto simp: compareLoans_asc compareLoans_desc)
    qed
    then have "sortBy (compareLoans c dir) (sortBy (compareLoans c dir) loans)
        = sortBy (compareLoans c dir) loans"
      by (rule sortBy_sorted)
    with Some False show ?thesis by (simp add: sortLoans_def)
  qed
qed

text \<open>
  C2 fails in the descending direction. The comparator negates its whole result there,
  the comparison of the ids included, so two loans with the same amount come out by
  descending id; in the ascending direction they come out by ascending id.
\<close>

theorem sortLoans_desc_ties_descending_id:
  "amount loan1 = amount loan2 \<and> id' loan1 < id' loan2
   \<and> sortLoans [loan1, loan2] (Some col_amount) desc = [loan2, loan1]
   \<and> sortLoans [loan1, loan2] (Some col_amount) asc = [loan1, loan2]"
  by code_simp

end
